(* ===== verification/P2P_Prelude.thy ===== *)
theory P2P_Prelude
  imports Main "HOL-Library.Word"
begin

text \<open>
  Shared vocabulary of the development: the fixed-width integer types of
  \<^verbatim>\<open>include/GeneralTypes.h\<close>, the faults by which undefined behaviour of the C++ source is
  made visible, the result monad, the standard-library algorithms the source calls
  (\<^verbatim>\<open>std::find_if\<close>, \<^verbatim>\<open>std::count_if\<close>, \<^verbatim>\<open>memcpy\<close>), the memory image of machine words on
  hosts of either byte order, and the generic lemmas the component theories rest on.
\<close>

section \<open>Fact collections\<close>

named_theorems result_simps \<open>rewrite rules of the result monad and its loops\<close>
named_theorems codec_simps \<open>byte-level encodings: lengths and round trips\<close>
named_theorems inv_intros \<open>preservation of component invariants\<close>

section \<open>Machine types\<close>

type_synonym Uint8 = "8 word"
type_synonym Uint16 = "16 word"
type_synonym Uint32 = "32 word"
type_synonym Uint64 = "64 word"
type_synonym Int8 = "8 word"
type_synonym SegmentId = "16 word"

text \<open>\<open>std::time_t\<close> in seconds, and clock readings in nanoseconds since the epoch.\<close>

type_synonym time_t = int
type_synonym clock = nat

section \<open>Faults and results\<close>

text \<open>
  A fault is a point where the source leaves the defined behaviour of C++ (or where an
  allocation fails, or the process ends): the model stops there with the kind of fault.
\<close>

datatype fault =
    NullDeref          \<comment> \<open>dereference of an empty \<open>lock()\<close>, of \<open>end()\<close> or of an unset pointer\<close>
  | OutOfBounds        \<comment> \<open>access past the end of a buffer, vector or bitset\<close>
  | InvalidIterator    \<comment> \<open>use of an iterator after \<open>erase\<close>\<close>
  | BadFloatCast       \<comment> \<open>conversion of a floating value outside the target's range\<close>
  | Uninitialised      \<comment> \<open>read of a variable that was never assigned\<close>
  | DeadObject         \<comment> \<open>use of an object after the end of its lifetime\<close>
  | UncaughtException  \<comment> \<open>an exception that leaves a destructor and ends the process\<close>

type_synonym 'a result = "fault + 'a"

definition bindE :: "'a result \<Rightarrow> ('a \<Rightarrow> 'b result) \<Rightarrow> 'b result" where
  "bindE m f = (case m of Inl e \<Rightarrow> Inl e | Inr x \<Rightarrow> f x)"

definition of_option :: "fault \<Rightarrow> 'a option \<Rightarrow> 'a result" where
  "of_option e x = (case x of None \<Rightarrow> Inl e | Some y \<Rightarrow> Inr y)"

definition is_ok :: "'a result \<Rightarrow> bool" where
  "is_ok m = (case m of Inl _ \<Rightarrow> False | Inr _ \<Rightarrow> True)"

text \<open>A range-based \<open>for\<close> loop whose body may fault, over a state.\<close>

fun foldE :: "('a \<Rightarrow> 's \<Rightarrow> 's result) \<Rightarrow> 'a list \<Rightarrow> 's \<Rightarrow> 's result" where
  "foldE f [] s = Inr s"
| "foldE f (x # xs) s = bindE (f x s) (foldE f xs)"

text \<open>\<open>std::find_if\<close> stops at the first match; \<open>std::count_if\<close> visits every element.\<close>

fun find_ifE :: "('a \<Rightarrow> bool result) \<Rightarrow> 'a list \<Rightarrow> 'a option result" where
  "find_ifE p [] = Inr None"
| "find_ifE p (x # xs) = bindE (p x) (\<lambda>b. if b then Inr (Some x) else find_ifE p xs)"

fun count_ifE :: "('a \<Rightarrow> bool result) \<Rightarrow> 'a list \<Rightarrow> nat result" where
  "count_ifE p [] = Inr 0"
| "count_ifE p (x # xs) =
     bindE (p x) (\<lambda>b. bindE (count_ifE p xs) (\<lambda>n. Inr ((if b then 1 else 0) + n)))"

fun mapE :: "('a \<Rightarrow> 'b result) \<Rightarrow> 'a list \<Rightarrow> 'b list result" where
  "mapE f [] = Inr []"
| "mapE f (x # xs) = bindE (f x) (\<lambda>y. bindE (mapE f xs) (\<lambda>ys. Inr (y # ys)))"

section \<open>Memory\<close>

text \<open>
  \<open>memcpy\<close> into a buffer at an offset, reading a sub-range of a buffer, and reading one
  byte: outside the buffer each is a fault.
\<close>

definition memcpy :: "'a list \<Rightarrow> nat \<Rightarrow> 'a list \<Rightarrow> 'a list result" where
  "memcpy dst off src =
     (if off + length src \<le> length dst
      then Inr (take off dst @ src @ drop (off + length src) dst)
      else Inl OutOfBounds)"

definition mem_range :: "'a list \<Rightarrow> nat \<Rightarrow> nat \<Rightarrow> 'a list result" where
  "mem_range buf off n =
     (if off + n \<le> length buf then Inr (take n (drop off buf)) else Inl OutOfBounds)"

text \<open>Little-endian bytes of a number and back.\<close>

fun nat_bytes :: "nat \<Rightarrow> nat \<Rightarrow> Uint8 list" where
  "nat_bytes 0 n = []"
| "nat_bytes (Suc k) n = word_of_nat n # nat_bytes k (n div 256)"

fun bytes_nat :: "Uint8 list \<Rightarrow> nat" where
  "bytes_nat [] = 0"
| "bytes_nat (b # bs) = unat b + 256 * bytes_nat bs"

text \<open>The byte order of the host the program runs on.\<close>

datatype endian = Little | Big

definition store_word :: "endian \<Rightarrow> 'a::len word \<Rightarrow> Uint8 list" where
  "store_word e w =
     (let bs = nat_bytes (LENGTH('a) div 8) (unat w)
      in case e of Little \<Rightarrow> bs | Big \<Rightarrow> rev bs)"

definition load_word :: "endian \<Rightarrow> Uint8 list \<Rightarrow> 'a::len word" where
  "load_word e bs =
     word_of_nat (bytes_nat (case e of Little \<Rightarrow> bs | Big \<Rightarrow> rev bs))"

definition byte_swap :: "'a::len word \<Rightarrow> 'a word" where
  "byte_swap w = load_word Little (rev (store_word Little w))"

text \<open>\<open>htobe64\<close>, \<open>be64toh\<close>, \<open>htons\<close>, \<open>ntohs\<close>: a byte swap on a little-endian host.\<close>

definition hton :: "endian \<Rightarrow> 'a::len word \<Rightarrow> 'a word" where
  "hton e w = (case e of Little \<Rightarrow> byte_swap w | Big \<Rightarrow> w)"

text \<open>\<open>std::string\<close> to and from the bytes of its characters.\<close>

definition string_bytes :: "string \<Rightarrow> Uint8 list" where
  "string_bytes s = map (\<lambda>c. word_of_nat (of_char c)) s"

definition bytes_string :: "Uint8 list \<Rightarrow> string" where
  "bytes_string bs = map (\<lambda>b. char_of (unat b)) bs"

text \<open>\<open>std::string(begin, std::find(begin, end, '\\0'))\<close>.\<close>

definition c_string :: "Uint8 list \<Rightarrow> string" where
  "c_string bs = bytes_string (takeWhile (\<lambda>b. b \<noteq> 0) bs)"

section \<open>Lemmas: results and loops\<close>

lemma bindE_simps [simp, result_simps]:
  "bindE (Inr x) f = f x" "bindE (Inl e) f = Inl e"
  by (simp_all add: bindE_def)

lemma bindE_Inr_iff [result_simps]: "bindE m f = Inr y \<longleftrightarrow> (\<exists>x. m = Inr x \<and> f x = Inr y)"
  by (cases m) simp_all

lemma of_option_simps [simp, result_simps]:
  "of_option e (Some x) = Inr x" "of_option e None = Inl e"
  by (simp_all add: of_option_def)

lemma of_option_Inr_iff [result_simps]: "of_option e x = Inr y \<longleftrightarrow> x = Some y"
  by (cases x) simp_all

lemma is_ok_simps [simp, result_simps]: "is_ok (Inr x)" "\<not> is_ok (Inl e)"
  by (simp_all add: is_ok_def)

lemma is_ok_iff: "is_ok m \<longleftrightarrow> (\<exists>x. m = Inr x)"
  by (cases m) simp_all

text \<open>Where the predicate does not fault, the faulting algorithms are the list functions.\<close>

lemma find_ifE_Inr:
  "(\<And>x. x \<in> set xs \<Longrightarrow> p x = Inr (q x)) \<Longrightarrow> find_ifE p xs = Inr (find q xs)"
  by (induction xs) simp_all

lemma count_ifE_Inr:
  "(\<And>x. x \<in> set xs \<Longrightarrow> p x = Inr (q x)) \<Longrightarrow> count_ifE p xs = Inr (length (filter q xs))"
  by (induction xs) simp_all

lemma mapE_Inr:
  "(\<And>x. x \<in> set xs \<Longrightarrow> f x = Inr (g x)) \<Longrightarrow> mapE f xs = Inr (map g xs)"
  by (induction xs) simp_all

lemma mapE_succeeds: "(\<forall>x \<in> set xs. \<exists>y. f x = Inr y) \<Longrightarrow> \<exists>ys. mapE f xs = Inr ys"
  by (induction xs) auto

lemma foldE_append: "foldE f (xs @ ys) s = bindE (foldE f xs s) (foldE f ys)"
proof (induction xs arbitrary: s)
  case (Cons x xs)
  then show ?case by (cases "f x s") simp_all
qed simp

text \<open>The loop rule: an invariant the body keeps without faulting holds after the loop.\<close>

lemma foldE_invariant:
  assumes "\<And>x s. x \<in> set xs \<Longrightarrow> I s \<Longrightarrow> \<exists>s'. f x s = Inr s' \<and> I s'" and "I s"
  shows "\<exists>s'. foldE f xs s = Inr s' \<and> I s'"
  using assms
proof (induction xs arbitrary: s)
  case (Cons x xs)
  then obtain s1 where s1: "f x s = Inr s1" "I s1" by (meson list.set_intros(1))
  have "\<exists>s'. foldE f xs s1 = Inr s' \<and> I s'"
    using Cons.IH [OF _ s1(2)] Cons.prems(1) by simp
  with s1 show ?case by simp
qed simp

lemma find_Some_mem: "find p xs = Some x \<Longrightarrow> x \<in> set xs \<and> p x"
  by (induction xs) (auto split: if_splits)

lemma find_append:
  "find p (xs @ ys) = (case find p xs of Some x \<Rightarrow> Some x | None \<Rightarrow> find p ys)"
  by (induction xs) auto

lemma find_NoneD: "find p xs = None \<Longrightarrow> x \<in> set xs \<Longrightarrow> \<not> p x"
  by (simp add: find_None_iff)

lemma find_unique:
  assumes "x \<in> set xs" "p x" "\<And>y. y \<in> set xs \<Longrightarrow> p y \<Longrightarrow> y = x"
  shows "find p xs = Some x"
  using assms
proof (induction xs)
  case (Cons y ys)
  show ?case
  proof (cases "p y")
    case True
    with Cons.prems(3) [of y] show ?thesis by simp
  next
    case False
    with Cons.prems(1,2) have "x \<in> set ys" by auto
    then have "find p ys = Some x"
      using Cons.IH Cons.prems(2,3) by (meson list.set_intros(2))
    with False show ?thesis by simp
  qed
qed simp

section \<open>Lemmas: memory and byte encodings\<close>

lemma length_nat_bytes [simp, codec_simps]: "length (nat_bytes k n) = k"
  by (induction k arbitrary: n) simp_all

lemma unat_byte_less: "unat (b :: Uint8) < 256"
  using unsigned_less [of b, where ?'a = nat] by simp

lemma bytes_nat_bound: "bytes_nat bs < 256 ^ length bs"
proof (induction bs)
  case (Cons b bs)
  have "unat b < 256" by (rule unat_byte_less)
  with Cons.IH show ?case by simp
qed simp

lemma bytes_nat_nat_bytes [simp, codec_simps]: "bytes_nat (nat_bytes k n) = n mod 256 ^ k"
proof (induction k arbitrary: n)
  case (Suc k)
  have "n mod 256 ^ Suc k = n mod 256 + 256 * ((n div 256) mod 256 ^ k)"
    using mod_mult2_eq [of n 256 "256 ^ k"] by simp
  with Suc show ?case by (simp add: unat_of_nat)
qed simp

lemma nat_bytes_bytes_nat [simp, codec_simps]:
  "length bs = k \<Longrightarrow> nat_bytes k (bytes_nat bs) = bs"
proof (induction bs arbitrary: k)
  case (Cons b bs)
  have "word_of_nat (256 * bytes_nat bs) = (0 :: Uint8)"
    unfolding word_of_nat_eq_0_iff by simp
  then have "word_of_nat (unat b + 256 * bytes_nat bs) = b" by simp
  moreover have "(unat b + 256 * bytes_nat bs) div 256 = bytes_nat bs"
    using unat_byte_less [of b] by simp
  ultimately show ?case using Cons by auto
qed simp

lemma length_store_word [simp, codec_simps]:
  "length (store_word e (w :: 'a::len word)) = LENGTH('a) div 8"
  by (simp add: store_word_def Let_def split: endian.splits)

lemma pow256_length:
  assumes "8 dvd LENGTH('a::len)"
  shows "(256 :: nat) ^ (LENGTH('a) div 8) = 2 ^ LENGTH('a)"
proof -
  have "(256 :: nat) ^ (LENGTH('a) div 8) = 2 ^ (8 * (LENGTH('a) div 8))"
    by (simp add: power_mult)
  also have "\<dots> = 2 ^ LENGTH('a)" using assms by simp
  finally show ?thesis .
qed

lemma unat_mod_bytes:
  assumes "8 dvd LENGTH('a::len)"
  shows "unat (w :: 'a word) mod 256 ^ (LENGTH('a) div 8) = unat w"
  by (simp add: pow256_length [OF assms])

lemma load_store_word [codec_simps]:
  assumes "8 dvd LENGTH('a::len)"
  shows "load_word e (store_word e (w :: 'a word)) = w"
  using unat_mod_bytes [OF assms, of w]
  by (simp add: load_word_def store_word_def Let_def split: endian.splits)

lemma store_load_word [codec_simps]:
  assumes "8 dvd LENGTH('a::len)" "length bs = LENGTH('a) div 8"
  shows "store_word e (load_word e bs :: 'a word) = bs"
proof -
  have pow: "(256 :: nat) ^ length bs = 2 ^ LENGTH('a)"
    using assms by (simp add: pow256_length)
  have "bytes_nat cs < 2 ^ LENGTH('a)" if "length cs = length bs" for cs
    using bytes_nat_bound [of cs] pow that by simp
  then have "unat (word_of_nat (bytes_nat cs) :: 'a word) = bytes_nat cs"
    if "length cs = length bs" for cs
    using that by (simp add: unat_of_nat)
  then show ?thesis
    using assms by (simp add: load_word_def store_word_def Let_def split: endian.splits)
qed

text \<open>
  Whatever the host's byte order, storing a converted word writes the most significant
  byte first, and converting a loaded word reads the most significant byte first.
\<close>

lemma store_hton [codec_simps]:
  assumes "8 dvd LENGTH('a::len)"
  shows "store_word e (hton e (w :: 'a word)) = store_word Big w"
proof (cases e)
  case Little
  have "store_word Little (byte_swap w) = rev (store_word Little w)"
    by (simp add: byte_swap_def store_load_word assms)
  also have "\<dots> = store_word Big w" by (simp add: store_word_def Let_def)
  finally show ?thesis by (simp add: Little hton_def)
next
  case Big
  then show ?thesis by (simp add: hton_def)
qed

lemma hton_load [codec_simps]:
  assumes "8 dvd LENGTH('a::len)" "length bs = LENGTH('a) div 8"
  shows "hton e (load_word e bs :: 'a word) = load_word Big bs"
proof (cases e)
  case Little
  have "byte_swap (load_word Little bs :: 'a word) = load_word Little (rev bs)"
    by (simp add: byte_swap_def store_load_word assms)
  also have "\<dots> = load_word Big bs" by (simp add: load_word_def)
  finally show ?thesis by (simp add: Little hton_def)
next
  case Big
  then show ?thesis by (simp add: hton_def)
qed

lemma length_string_bytes [simp, codec_simps]: "length (string_bytes s) = length s"
  by (simp add: string_bytes_def)

lemma unat_char_byte [simp]: "unat (word_of_nat (of_char c) :: Uint8) = (of_char c :: nat)"
  by (simp add: unat_of_nat)

lemma bytes_string_string_bytes [simp, codec_simps]: "bytes_string (string_bytes s) = s"
  by (simp add: bytes_string_def string_bytes_def comp_def)

lemma string_bytes_append: "string_bytes (s @ t) = string_bytes s @ string_bytes t"
  by (simp add: string_bytes_def)

lemma string_bytes_take: "string_bytes (take n s) = take n (string_bytes s)"
  by (simp add: string_bytes_def take_map)

text \<open>A \<open>std::string\<close> without embedded NUL characters.\<close>

definition nul_free :: "string \<Rightarrow> bool" where
  "nul_free s = (CHR 0x00 \<notin> set s)"

lemma char_byte_zero_iff: "(word_of_nat (of_char c) :: Uint8) = 0 \<longleftrightarrow> c = CHR 0x00"
proof
  assume "(word_of_nat (of_char c) :: Uint8) = 0"
  then have "(of_char c :: nat) = 0" using unat_char_byte [of c] by simp
  then have "(of_char c :: nat) = of_char (CHR 0x00)" by simp
  then show "c = CHR 0x00" by (simp only: of_char_eq_iff)
qed simp

lemma nul_free_bytes: "nul_free s \<Longrightarrow> b \<in> set (string_bytes s) \<Longrightarrow> b \<noteq> 0"
  by (auto simp: nul_free_def string_bytes_def char_byte_zero_iff)

lemma nul_free_take: "nul_free s \<Longrightarrow> nul_free (take n s)"
  by (auto simp: nul_free_def dest: in_set_takeD)

lemma c_string_padded [codec_simps]:
  assumes "nul_free s"
  shows "c_string (string_bytes s @ replicate n 0) = s"
proof -
  have "takeWhile (\<lambda>b. b \<noteq> 0) (string_bytes s @ replicate n 0) = string_bytes s"
    using nul_free_bytes [OF assms] by (cases n) (auto simp: takeWhile_append2)
  then show ?thesis by (simp add: c_string_def)
qed

lemma memcpy_ok [codec_simps]:
  "off + length src \<le> length dst \<Longrightarrow>
   memcpy dst off src = Inr (take off dst @ src @ drop (off + length src) dst)"
  by (simp add: memcpy_def)

lemma memcpy_fault_iff: "memcpy dst off src = Inl e \<longleftrightarrow>
    length dst < off + length src \<and> e = OutOfBounds"
  by (auto simp: memcpy_def)

lemma memcpy_length: "memcpy dst off src = Inr dst' \<Longrightarrow> length dst' = length dst"
  by (auto simp: memcpy_def split: if_splits)

lemma mem_range_ok [codec_simps]:
  "off + n \<le> length buf \<Longrightarrow> mem_range buf off n = Inr (take n (drop off buf))"
  by (simp add: mem_range_def)

lemma mem_range_length: "mem_range buf off n = Inr bs \<Longrightarrow> length bs = n"
  by (auto simp: mem_range_def split: if_splits)

section \<open>The contract of a component\<close>

text \<open>
  A component is driven by calls. Its contract: under its invariant no call faults, each
  call keeps the invariant, and each acts on the abstract state as its specification says.
  Clients rely on the same contract for every sequence of calls.
\<close>

locale safe_component =
  fixes exec :: "'c \<Rightarrow> 's \<Rightarrow> 's result"
    and spec :: "'c \<Rightarrow> 'a \<Rightarrow> 'a"
    and invar :: "'s \<Rightarrow> bool"
    and abst :: "'s \<Rightarrow> 'a"
  assumes exec_refines:
    "invar s \<Longrightarrow> \<exists>s'. exec c s = Inr s' \<and> invar s' \<and> abst s' = spec c (abst s)"
begin

lemma run_refines:
  "invar s \<Longrightarrow> \<exists>s'. foldE exec cs s = Inr s' \<and> invar s' \<and> abst s' = fold spec cs (abst s)"
proof (induction cs arbitrary: s)
  case (Cons c cs)
  from exec_refines [OF Cons.prems, of c] obtain s1
    where "exec c s = Inr s1" "invar s1" "abst s1 = spec c (abst s)" by blast
  with Cons.IH [of s1] show ?case by simp
qed simp

lemma run_never_faults: "invar s \<Longrightarrow> is_ok (foldE exec cs s)"
  using run_refines by (metis is_ok_simps(1))

end

text \<open>A component whose state can be queried: the answers are those of the abstract state.\<close>

locale observed_component = safe_component +
  fixes query :: "'q \<Rightarrow> 'b \<Rightarrow> 'r result"
    and answer :: "'q \<Rightarrow> 'c \<Rightarrow> 'r"
  assumes query_law: "invar s \<Longrightarrow> query q s = Inr (answer q (abst s))"
begin

lemma query_after:
  assumes "invar s" "foldE exec cs s = Inr s'"
  shows "query q s' = Inr (answer q (fold spec cs (abst s)))"
  using run_refines [OF assms(1), of cs] assms(2) query_law by auto

end

end
