(* ===== verification/General_Types.thy ===== *)
theory General_Types
  imports P2P_Prelude
begin

text \<open>
  The constants of \<^verbatim>\<open>include/GeneralTypes.h\<close>: the command octets of the protocol, the
  sizes of the wire format, ports, and the limits of the timeout bookkeeping. They unfold by
  simplification, as the preprocessor substitutes them.
\<close>

section \<open>Protocol commands\<close>

definition QUIT_CONN :: Uint8 where [simp]: "QUIT_CONN = 4"
definition REQ_SEGMENT :: Uint8 where [simp]: "REQ_SEGMENT = 8"
definition REVOKE :: Uint8 where [simp]: "REVOKE = 16"
definition FILE_LIST :: Uint8 where [simp]: "FILE_LIST = 32"

section \<open>Wire format\<close>

definition BEACON_MAX_COUNT :: nat where [simp]: "BEACON_MAX_COUNT = 3"
definition RESOURCE_HEADER_SIZE :: nat where [simp]: "RESOURCE_HEADER_SIZE = 264"

definition UDP_SERV_BUFFER_SIZE :: nat where
  [simp]: "UDP_SERV_BUFFER_SIZE = 1 + 8 + BEACON_MAX_COUNT * RESOURCE_HEADER_SIZE"

definition FILE_NAME_LENGHT :: nat where [simp]: "FILE_NAME_LENGHT = 256"
definition FILE_SIZE_LENGHT :: nat where [simp]: "FILE_SIZE_LENGHT = 8"
definition SEGMENT_SIZE :: nat where [simp]: "SEGMENT_SIZE = 1024"

section \<open>Ports and limits\<close>

definition BROADCAST_PORT :: Uint16 where [simp]: "BROADCAST_PORT = 2020"
definition TCP_SERVER_PORT :: Uint16 where [simp]: "TCP_SERVER_PORT = 2169"
definition TIMEOUT_COUNTER_LIMIT :: int where [simp]: "TIMEOUT_COUNTER_LIMIT = 20"
definition LEFT_MARGIN :: Uint16 where [simp]: "LEFT_MARGIN = 20"

text \<open>\<open>BAN_TIME\<close> in nanoseconds of the system clock.\<close>

definition BAN_TIME :: clock where [simp]: "BAN_TIME = 1000 * 1000000"

end
