(* ===== verification/Resource_Model.thy ===== *)
theory Resource_Model
  imports General_Types
begin

text \<open>
  \<^verbatim>\<open>include/Resource.h\<close>, \<^verbatim>\<open>src/Resource.cpp\<close>: the class \<open>Resource\<close> (a file known by name
  and size), its 264-octet wire header and the number of its segments. Pointers to hosts are
  addresses into the store of \<open>Resource_Database\<close>. The wire format is stated as an interface
  (locale \<open>wire_codec\<close>) which the header implements.
\<close>

section \<open>The class\<close>

type_synonym hptr = nat
type_synonym rptr = nat

record Resource =
  res_size :: Uint64
  res_name :: string
  invalidated :: bool
  res_path :: string
  hosts_in_possession :: "hptr list"

definition default_path :: string where
  "default_path = ''./''"

definition Resource_new :: "string \<Rightarrow> Uint64 \<Rightarrow> string \<Rightarrow> Resource" where
  "Resource_new name_c size_c path_c =
     \<lparr>res_size = size_c, res_name = name_c, invalidated = False, res_path = path_c,
      hosts_in_possession = []\<rparr>"

text \<open>The copy constructor delegates: the copy is neither revoked nor possessed.\<close>

definition Resource_copy :: "Resource \<Rightarrow> Resource" where
  "Resource_copy other = Resource_new (res_name other) (res_size other) (res_path other)"

text \<open>The constructor from a wire header.\<close>

definition Resource_from_header :: "endian \<Rightarrow> Uint8 list \<Rightarrow> Resource" where
  "Resource_from_header e resource_header =
     (if length resource_header \<ge> RESOURCE_HEADER_SIZE
      then \<lparr>res_size = hton e (load_word e (take 8 (drop 256 resource_header))),
            res_name = c_string (take 256 resource_header),
            invalidated = False, res_path = default_path, hosts_in_possession = []\<rparr>
      else \<lparr>res_size = 0, res_name = [], invalidated = False, res_path = default_path,
            hosts_in_possession = []\<rparr>)"

text \<open>
  \<open>generate_resource_header\<close>: the whole name is copied to the start of the 264-octet
  buffer, then the size in network order to octet 256.
\<close>

definition generate_resource_header :: "endian \<Rightarrow> Resource \<Rightarrow> Uint8 list result" where
  "generate_resource_header e r =
     (let header = replicate (256 + 8) 0;
          header = replicate 256 0 @ drop 256 header;
          size_net = hton e (res_size r)
      in bindE (memcpy header 0 (string_bytes (res_name r)))
           (\<lambda>header. memcpy header 256 (store_word e size_net)))"

definition calc_segments_count :: "Resource \<Rightarrow> Uint16" where
  "calc_segments_count r =
     (if res_size r mod 1024 \<noteq> 0 then ucast (1 + res_size r div 1024)
      else ucast (res_size r div 1024))"

definition set_revoked :: "Resource \<Rightarrow> Resource" where
  "set_revoked r = r\<lparr>invalidated := True\<rparr>"

definition isInvalidated :: "Resource \<Rightarrow> bool" where
  "isInvalidated r = (invalidated r = True)"

text \<open>\<open>operator==\<close> and \<open>operator!=\<close>: size and name only.\<close>

definition Resource_eq :: "Resource \<Rightarrow> Resource \<Rightarrow> bool" where
  "Resource_eq a b = (res_size a = res_size b \<and> res_name a = res_name b)"

definition Resource_neq :: "Resource \<Rightarrow> Resource \<Rightarrow> bool" where
  "Resource_neq a b = (\<not> Resource_eq a b)"

text \<open>
  \<open>remove_host\<close>: the filtered copy replaces the vector. A \<open>weak_ptr\<close> whose host is gone
  locks to the null pointer and is kept, since the host given is not null.
\<close>

definition Resource_remove_host :: "hptr \<Rightarrow> Resource \<Rightarrow> Resource" where
  "Resource_remove_host host r =
     (let temp = filter (\<lambda>it. it \<noteq> host) (hosts_in_possession r)
      in r\<lparr>hosts_in_possession := temp\<rparr>)"

section \<open>The wire format as an interface\<close>

text \<open>
  An encoder that may fault, a total decoder, the part of a message both sides agree on
  (\<open>view\<close>), the messages the format can carry (\<open>valid\<close>) and its fixed width.
\<close>

locale wire_codec =
  fixes enc :: "'a \<Rightarrow> Uint8 list result"
    and dec :: "Uint8 list \<Rightarrow> 'b"
    and sent :: "'a \<Rightarrow> 'k"
    and received :: "'b \<Rightarrow> 'k"
    and valid :: "'a \<Rightarrow> bool"
    and width :: nat
  assumes enc_width: "valid x \<Longrightarrow> \<exists>bs. enc x = Inr bs \<and> length bs = width"
    and dec_enc: "valid x \<Longrightarrow> enc x = Inr bs \<Longrightarrow> received (dec bs) = sent x"
begin

lemma enc_injective:
  assumes "valid x" "valid y" "enc x = enc y"
  shows "sent x = sent y"
proof -
  from enc_width [OF assms(1)] obtain bs where bs: "enc x = Inr bs" by blast
  with assms(3) have "enc y = Inr bs" by simp
  with bs assms(1,2) show ?thesis using dec_enc by metis
qed

text \<open>A run of encoded messages is cut back into them by steps of the width.\<close>

lemma mapE_enc:
  assumes "\<forall>x \<in> set xs. valid x"
  shows "\<exists>bss. mapE enc xs = Inr bss \<and> length bss = length xs \<and>
    (\<forall>bs \<in> set bss. length bs = width) \<and> map (\<lambda>bs. received (dec bs)) bss = map sent xs"
  using assms
proof (induction xs)
  case (Cons x xs)
  then obtain bss where bss: "mapE enc xs = Inr bss" "length bss = length xs"
      "\<forall>bs \<in> set bss. length bs = width" "map (\<lambda>bs. received (dec bs)) bss = map sent xs"
    by auto
  from Cons.prems have x: "valid x" by simp
  with enc_width obtain bs where bs: "enc x = Inr bs" "length bs = width" by blast
  moreover from x bs(1) have "received (dec bs) = sent x" by (rule dec_enc)
  ultimately show ?case using bss by simp
qed simp

end

text \<open>The identity of a resource on the wire, and the resources the header can carry.\<close>

type_synonym res_key = "string \<times> Uint64"

definition res_key :: "Resource \<Rightarrow> res_key" where
  "res_key r = (res_name r, res_size r)"

definition header_ok :: "Resource \<Rightarrow> bool" where
  "header_ok r = (length (res_name r) \<le> 256 \<and> nul_free (res_name r))"

section \<open>Lemmas\<close>

lemma Resource_eq_iff: "Resource_eq a b \<longleftrightarrow> res_key a = res_key b"
  by (auto simp: Resource_eq_def res_key_def)

lemma Resource_neq_iff: "Resource_neq a b \<longleftrightarrow> res_key a \<noteq> res_key b"
  by (simp add: Resource_neq_def Resource_eq_iff)

lemma Resource_copy_simps [simp]:
  "res_key (Resource_copy r) = res_key r" "res_size (Resource_copy r) = res_size r"
  "res_name (Resource_copy r) = res_name r" "res_path (Resource_copy r) = res_path r"
  "\<not> invalidated (Resource_copy r)" "hosts_in_possession (Resource_copy r) = []"
  by (simp_all add: Resource_copy_def Resource_new_def res_key_def)

lemma Resource_remove_host_simps [simp]:
  "res_key (Resource_remove_host h r) = res_key r"
  "invalidated (Resource_remove_host h r) = invalidated r"
  "hosts_in_possession (Resource_remove_host h r) =
     filter (\<lambda>it. it \<noteq> h) (hosts_in_possession r)"
  by (simp_all add: Resource_remove_host_def res_key_def)

lemma res_key_update [simp]:
  "res_key (r\<lparr>invalidated := b\<rparr>) = res_key r"
  "res_key (r\<lparr>hosts_in_possession := hs\<rparr>) = res_key r"
  by (simp_all add: res_key_def)

text \<open>The header of a name that fits the buffer, whatever the byte order of the host.\<close>

lemma generate_resource_header_eq:
  assumes "length (res_name r) \<le> 264"
  shows "generate_resource_header e r =
    Inr (take 256 (string_bytes (res_name r) @ replicate 256 0) @ store_word Big (res_size r))"
proof -
  let ?n = "string_bytes (res_name r)"
  have init: "replicate 256 0 @ drop 256 (replicate (256 + 8) (0 :: Uint8)) = replicate 264 0"
    by (simp add: replicate_add [symmetric] del: replicate.simps)
  have m1: "memcpy (replicate 264 0) 0 ?n = Inr (?n @ replicate (264 - length ?n) 0)"
    using assms by (simp add: memcpy_def)
  have len: "length (?n @ replicate (264 - length ?n) 0) = 264" using assms by simp
  have "take 256 (?n @ replicate (264 - length ?n) (0 :: Uint8)) =
        take 256 (?n @ replicate 256 0)"
    by (auto simp: min_def)
  then have "memcpy (?n @ replicate (264 - length ?n) 0) 256 (store_word Big (res_size r)) =
    Inr (take 256 (?n @ replicate 256 0) @ store_word Big (res_size r))"
    using len by (simp add: memcpy_def)
  then show ?thesis
    unfolding generate_resource_header_def Let_def init m1 bindE_simps
    by (simp add: store_hton)
qed

lemma length_resource_header:
  "length (res_name r) \<le> 264 \<Longrightarrow>
   \<exists>bs. generate_resource_header e r = Inr bs \<and> length bs = RESOURCE_HEADER_SIZE"
  by (simp add: generate_resource_header_eq)

text \<open>Decoding any buffer of a header's length reads its two fields.\<close>

lemma Resource_from_header_eq:
  assumes "length hdr \<ge> 264"
  shows "Resource_from_header e hdr =
    Resource_new (c_string (take 256 hdr)) (load_word Big (take 8 (drop 256 hdr))) default_path"
  using assms by (simp add: Resource_from_header_def Resource_new_def hton_load)

lemma Resource_from_generated:
  assumes "length (res_name r) \<le> 264" "generate_resource_header e r = Inr hdr"
    and "nul_free (res_name r)"
  shows "Resource_from_header e' hdr =
    Resource_new (take 256 (res_name r)) (res_size r) default_path"
proof -
  let ?n = "string_bytes (res_name r)"
  have hdr: "hdr = take 256 (?n @ replicate 256 0) @ store_word Big (res_size r)"
    using assms(1,2) by (simp add: generate_resource_header_eq)
  have "take 256 (?n @ replicate 256 0) =
      string_bytes (take 256 (res_name r)) @ replicate (256 - length (res_name r)) 0"
    by (simp add: string_bytes_take)
  with hdr have name: "c_string (take 256 hdr) = take 256 (res_name r)"
    using c_string_padded [OF nul_free_take [OF assms(3), of 256]] by simp
  have "take 8 (drop 256 hdr) = store_word Big (res_size r)" by (simp add: hdr)
  then have "load_word Big (take 8 (drop 256 hdr)) = res_size r"
    by (simp add: load_store_word)
  with name show ?thesis by (simp add: Resource_from_header_eq hdr)
qed

interpretation header: wire_codec "generate_resource_header e" "Resource_from_header e'"
  res_key res_key header_ok RESOURCE_HEADER_SIZE for e e'
proof unfold_locales
  fix x assume "header_ok x"
  then show "\<exists>bs. generate_resource_header e x = Inr bs \<and> length bs = RESOURCE_HEADER_SIZE"
    using length_resource_header [of x e] by (simp add: header_ok_def)
next
  fix x bs assume "header_ok x" "generate_resource_header e x = Inr bs"
  then show "res_key (Resource_from_header e' bs) = res_key x"
    using Resource_from_generated [of x e bs e']
    by (simp add: header_ok_def res_key_def Resource_new_def)
qed

lemma round_up_1024:
  "((n :: nat) + 1023) div 1024 = (if n mod 1024 = 0 then n div 1024 else 1 + n div 1024)"
proof (cases "n mod 1024 = 0")
  case True
  then obtain k where "n = 1024 * k" by (metis dvd_def mod_0_imp_dvd)
  then show ?thesis by simp
next
  case False
  obtain q r where n: "n = 1024 * q + r" and r: "r < 1024"
    by (metis mod_less_divisor mult_div_mod_eq zero_less_numeral)
  with False have "0 < r" by (cases r) auto
  with n r have "1024 * (1 + q) \<le> n + 1023" and "n + 1023 < 1024 * Suc (1 + q)" by auto
  then have "(n + 1023) div 1024 = 1 + q" by (rule div_nat_eqI)
  moreover from n r have "n div 1024 = q" by simp
  ultimately have "(n + 1023) div 1024 = 1 + n div 1024" by simp
  with False show ?thesis by simp
qed

lemma le_round_up_1024: "(n :: nat) \<le> (n + 1023) div 1024 * 1024"
proof -
  obtain q m where "n + 1023 = 1024 * q + m" and "m < 1024"
    by (metis mod_less_divisor mult_div_mod_eq zero_less_numeral)
  moreover from this have "(n + 1023) div 1024 = q" by simp
  ultimately show ?thesis by linarith
qed

text \<open>The segment count on natural numbers: the true count, cut to 16 bits.\<close>

lemma calc_segments_count_unat:
  "unat (calc_segments_count r) = ((unat (res_size r) + 1023) div 1024) mod 65536"
proof -
  let ?s = "unat (res_size r)"
  have s: "?s < 2 ^ 64" using unsigned_less [of "res_size r", where ?'a = nat] by simp
  have div: "unat (res_size r div 1024) = ?s div 1024" by (simp add: unat_div)
  have "?s div 1024 < 2 ^ 54" using s by simp
  then have one: "unat (1 + res_size r div 1024) = 1 + ?s div 1024"
    by (simp add: unat_word_ariths div)
  have m: "res_size r mod 1024 = 0 \<longleftrightarrow> ?s mod 1024 = 0"
    using unat_eq_zero [of "res_size r mod 1024"] by (simp add: unat_mod)
  have cut: "unat (ucast w :: Uint16) = unat w mod 65536" for w :: Uint64
    by (simp add: unsigned_ucast_eq take_bit_eq_mod)
  show ?thesis
    by (simp add: calc_segments_count_def m cut round_up_1024 one div)
qed

lemma header_overflow:
  "length (res_name r) > 264 \<Longrightarrow> generate_resource_header e r = Inl OutOfBounds"
  by (simp add: generate_resource_header_def Let_def memcpy_def)

section \<open>Properties of the class\<close>

text \<open>C16: round trip of the wire header between hosts of any byte orders. A resource whose name
  has at most 256 characters and no NUL is encoded into exactly 264 octets, and the receiver
  reconstructs its name and size (with the default path, not revoked, without hosts).\<close>

theorem resource_header_roundtrip:
  assumes "length (res_name r) \<le> 256" "nul_free (res_name r)"
  shows "\<exists>hdr. generate_resource_header e r = Inr hdr \<and> length hdr = RESOURCE_HEADER_SIZE \<and>
    Resource_from_header e' hdr = Resource_new (res_name r) (res_size r) default_path"
proof -
  from assms obtain hdr where hdr: "generate_resource_header e r = Inr hdr"
      "length hdr = RESOURCE_HEADER_SIZE"
    using length_resource_header [of r e] by auto
  with assms show ?thesis using Resource_from_generated [of r e hdr e'] by simp
qed

theorem resource_header_roundtrip_witness:
  "\<exists>hdr. generate_resource_header Little (Resource_new ''XD'' 7 ''XD'') = Inr hdr \<and>
    length hdr = RESOURCE_HEADER_SIZE \<and>
    Resource_from_header Big hdr = Resource_new ''XD'' 7 default_path"
  using resource_header_roundtrip [of "Resource_new ''XD'' 7 ''XD''" Little Big]
  by (simp add: Resource_new_def nul_free_def)

text \<open>What the encoder does with a name of any length. Names of 257 to 264 characters lose
  their tail (the size field overwrites it, and no terminator is left), longer names are
  copied past the end of the 264-octet buffer.\<close>

lemma resource_header_by_length:
  "generate_resource_header e r =
     (if length (res_name r) \<le> 264
      then Inr (take 256 (string_bytes (res_name r) @ replicate 256 0) @
                store_word Big (res_size r))
      else Inl OutOfBounds)"
  by (simp add: generate_resource_header_eq header_overflow)

lemma segments_cover:
  assumes small: "unat (res_size r) \<le> 65535 * SEGMENT_SIZE"
  shows "unat (res_size r) \<le> unat (calc_segments_count r) * SEGMENT_SIZE"
proof -
  from small have "(unat (res_size r) + 1023) div 1024 < 65536"
    by (intro div_less_iff_less_mult [THEN iffD2]) simp_all
  then have "unat (calc_segments_count r) = (unat (res_size r) + 1023) div 1024"
    by (simp add: calc_segments_count_unat)
  then show "unat (res_size r) \<le> unat (calc_segments_count r) * SEGMENT_SIZE"
    by (simp only: le_round_up_1024 SEGMENT_SIZE_def)
qed

text \<open>The 16-bit segment count is enough for the file exactly up to 65535 segments
  (67107840 octets); for a larger file the segments the program will download do not
  cover its contents.\<close>

lemma segments_cover_iff:
  "unat (res_size r) \<le> unat (calc_segments_count r) * SEGMENT_SIZE \<longleftrightarrow>
   unat (res_size r) \<le> 65535 * SEGMENT_SIZE"
proof
  have "unat (calc_segments_count r) \<le> 65535"
    using unsigned_less [of "calc_segments_count r", where ?'a = nat] by simp
  then show "unat (res_size r) \<le> unat (calc_segments_count r) * SEGMENT_SIZE \<Longrightarrow>
      unat (res_size r) \<le> 65535 * SEGMENT_SIZE"
    by simp
next
  assume "unat (res_size r) \<le> 65535 * SEGMENT_SIZE"
  then show "unat (res_size r) \<le> unat (calc_segments_count r) * SEGMENT_SIZE" by (rule segments_cover)
qed

end
