(* ===== verification/Complete_Resource.thy ===== *)
theory Complete_Resource
  imports Resource_Model
begin

text \<open>
  \<^verbatim>\<open>Segment.h/.cpp\<close> and \<^verbatim>\<open>CompleteResource.h/.cpp\<close>: the file being downloaded, cut into
  segments of 1024 octets, with the two bitsets (busy, completed), the 16-bit counter of
  completed segments and the data buffer. A data pointer is an offset into the buffer;
  octets nobody has written yet are \<open>None\<close>. Each method holds \<open>complete_resource_mutex\<close>
  over the steps modelled here as one function; the blocking of \<open>get_segment\<close> on the
  condition variable is an outcome, and the interleaving of threads is modelled in
  \<open>Download_System\<close>.
\<close>

section \<open>Segments\<close>

record Segment =
  seg_id :: SegmentId
  seg_data :: "nat option"

definition NO_SEGMENT_ID :: SegmentId where
  "NO_SEGMENT_ID = - 1"

definition no_segment_left :: Segment where
  "no_segment_left = \<lparr>seg_id = NO_SEGMENT_ID, seg_data = None\<rparr>"

section \<open>The class\<close>

record CompleteResource =
  cr_resource :: Resource
  busy_segments :: "bool list"
  completed_segments :: "bool list"
  completed_counter :: SegmentId
  cr_data :: "Uint8 option list"

definition CompleteResource_new :: "Resource \<Rightarrow> CompleteResource" where
  "CompleteResource_new resource_c =
     (let n = unat (calc_segments_count resource_c)
      in \<lparr>cr_resource = resource_c, busy_segments = replicate n False,
          completed_segments = replicate n False, completed_counter = 0,
          cr_data = replicate (n * SEGMENT_SIZE) None\<rparr>)"

text \<open>\<open>operator[]\<close> of the bitsets.\<close>

definition get_bit :: "bool list \<Rightarrow> SegmentId \<Rightarrow> bool result" where
  "get_bit bits i = (if unat i < length bits then Inr (bits ! unat i) else Inl OutOfBounds)"

definition set_bit :: "bool list \<Rightarrow> SegmentId \<Rightarrow> bool \<Rightarrow> bool list result" where
  "set_bit bits i b = (if unat i < length bits then Inr (bits[unat i := b]) else Inl OutOfBounds)"

definition is_completed :: "CompleteResource \<Rightarrow> bool" where
  "is_completed cr = (completed_counter cr = calc_segments_count (cr_resource cr))"

definition downloadable :: "CompleteResource \<Rightarrow> SegmentId \<Rightarrow> bool result" where
  "downloadable cr i =
     bindE (get_bit (busy_segments cr) i) (\<lambda>b.
       if b = False
       then bindE (get_bit (completed_segments cr) i) (\<lambda>c. Inr (c = False))
       else Inr False)"

text \<open>
  The part of \<open>get_segment\<close> under the lock: the first segment that can be downloaded becomes
  busy and is returned; \<open>None\<close> means that the thread waits on the condition variable.
  The 16-bit loop variable cannot wrap, since it stays below the 16-bit count.
\<close>

definition segment_ids :: "CompleteResource \<Rightarrow> SegmentId list" where
  "segment_ids cr = map word_of_nat [0 ..< unat (calc_segments_count (cr_resource cr))]"

definition get_segment_scan :: "CompleteResource \<Rightarrow> (Segment option \<times> CompleteResource) result" where
  "get_segment_scan cr =
     bindE (find_ifE (downloadable cr) (segment_ids cr)) (\<lambda>found.
       case found of
         Some i \<Rightarrow>
           bindE (set_bit (busy_segments cr) i True) (\<lambda>busy.
             Inr (Some \<lparr>seg_id = i, seg_data = Some (unat i * SEGMENT_SIZE)\<rparr>,
                  cr\<lparr>busy_segments := busy\<rparr>))
       | None \<Rightarrow> Inr (None, cr))"

text \<open>\<open>set_segment\<close>; the flag says whether every waiting thread is notified.\<close>

definition set_segment :: "SegmentId \<Rightarrow> CompleteResource \<Rightarrow> (bool \<times> CompleteResource) result" where
  "set_segment i cr =
     bindE (set_bit (busy_segments cr) i False) (\<lambda>busy.
     bindE (set_bit (completed_segments cr) i True) (\<lambda>completed.
       let cr = cr\<lparr>busy_segments := busy, completed_segments := completed,
                   completed_counter := completed_counter cr + 1\<rparr>
       in Inr (completed_counter cr = calc_segments_count (cr_resource cr), cr)))"

text \<open>\<open>unset_busy\<close>; it always notifies one waiting thread.\<close>

definition unset_busy :: "SegmentId \<Rightarrow> CompleteResource \<Rightarrow> CompleteResource result" where
  "unset_busy i cr =
     bindE (set_bit (busy_segments cr) i False) (\<lambda>busy. Inr (cr\<lparr>busy_segments := busy\<rparr>))"

text \<open>Writing received octets through a segment's data pointer.\<close>

definition write_data :: "Segment \<Rightarrow> Uint8 list \<Rightarrow> CompleteResource \<Rightarrow> CompleteResource result" where
  "write_data seg bs cr =
     bindE (of_option NullDeref (seg_data seg)) (\<lambda>off.
     bindE (memcpy (cr_data cr) off (map Some bs)) (\<lambda>data. Inr (cr\<lparr>cr_data := data\<rparr>)))"

section \<open>Well-formedness\<close>

definition seg_count :: "CompleteResource \<Rightarrow> nat" where
  "seg_count cr = unat (calc_segments_count (cr_resource cr))"

definition cr_ok :: "CompleteResource \<Rightarrow> bool" where
  "cr_ok cr \<longleftrightarrow> length (busy_segments cr) = seg_count cr \<and>
     length (completed_segments cr) = seg_count cr \<and>
     length (cr_data cr) = seg_count cr * SEGMENT_SIZE"

text \<open>The octets of one segment in the buffer.\<close>

definition segment_block :: "CompleteResource \<Rightarrow> nat \<Rightarrow> Uint8 option list" where
  "segment_block cr i = take SEGMENT_SIZE (drop (i * SEGMENT_SIZE) (cr_data cr))"

section \<open>Lemmas\<close>

lemma seg_count_bound: "seg_count cr \<le> 65535"
  using unsigned_less [of "calc_segments_count (cr_resource cr)", where ?'a = nat]
  by (simp add: seg_count_def)

lemma unat_seg_id: "i < seg_count cr \<Longrightarrow> unat (word_of_nat i :: SegmentId) = i"
  using seg_count_bound [of cr] by (simp add: unat_of_nat)

lemma unat_NO_SEGMENT_ID [simp]: "unat NO_SEGMENT_ID = 65535"
  by (simp add: NO_SEGMENT_ID_def unsigned_minus_1_eq_mask mask_eq_exp_minus_1)

lemma CompleteResource_new_ok: "cr_ok (CompleteResource_new r)"
  by (simp add: cr_ok_def seg_count_def CompleteResource_new_def Let_def)

lemma CompleteResource_new_simps [simp]:
  "cr_resource (CompleteResource_new r) = r"
  "completed_counter (CompleteResource_new r) = 0"
  "busy_segments (CompleteResource_new r) = replicate (unat (calc_segments_count r)) False"
  "completed_segments (CompleteResource_new r) = replicate (unat (calc_segments_count r)) False"
  by (simp_all add: CompleteResource_new_def Let_def)

lemma downloadable_ok:
  assumes "cr_ok cr" "i < seg_count cr"
  shows "downloadable cr (word_of_nat i) =
    Inr (\<not> busy_segments cr ! i \<and> \<not> completed_segments cr ! i)"
  using assms by (simp add: downloadable_def get_bit_def cr_ok_def unat_seg_id [OF assms(2)])

text \<open>The scan finds the least segment that is neither busy nor completed.\<close>

lemma get_segment_scan_cases:
  assumes "cr_ok cr"
  obtains (segment) i where "i < seg_count cr" "\<not> busy_segments cr ! i" "\<not> completed_segments cr ! i"
      "\<forall>j < i. busy_segments cr ! j \<or> completed_segments cr ! j"
      "get_segment_scan cr = Inr (Some \<lparr>seg_id = word_of_nat i, seg_data = Some (i * SEGMENT_SIZE)\<rparr>,
         cr\<lparr>busy_segments := (busy_segments cr)[i := True]\<rparr>)"
  | (wait) "\<forall>j < seg_count cr. busy_segments cr ! j \<or> completed_segments cr ! j"
      "get_segment_scan cr = Inr (None, cr)"
proof -
  let ?q = "\<lambda>w. \<not> busy_segments cr ! unat w \<and> \<not> completed_segments cr ! unat (w :: SegmentId)"
  have f: "find_ifE (downloadable cr) (segment_ids cr) = Inr (find ?q (segment_ids cr))"
    by (rule find_ifE_Inr)
      (auto simp: segment_ids_def downloadable_ok [OF assms] seg_count_def [symmetric] unat_seg_id)
  show thesis
  proof (cases "find ?q (segment_ids cr)")
    case None
    then have "\<forall>j < seg_count cr. busy_segments cr ! j \<or> completed_segments cr ! j"
      by (auto simp: find_None_iff segment_ids_def seg_count_def [symmetric] unat_seg_id)
    with None f show thesis by (intro wait) (simp_all add: get_segment_scan_def)
  next
    case (Some w)
    then obtain i where i: "i < length (segment_ids cr)" "?q w" "w = segment_ids cr ! i"
        "\<forall>j < i. \<not> ?q (segment_ids cr ! j)"
      unfolding find_Some_iff by blast
    then have lt: "i < seg_count cr" by (simp add: segment_ids_def seg_count_def)
    have w: "w = word_of_nat i" "unat w = i"
      using i(1,3) lt by (simp_all add: segment_ids_def unat_seg_id)
    have "segment_ids cr ! j = word_of_nat j" if "j < i" for j
      using that i(1) by (simp add: segment_ids_def)
    with i(4) lt have "\<forall>j < i. busy_segments cr ! j \<or> completed_segments cr ! j"
      by (simp add: unat_seg_id [of _ cr])
    with i(2) w lt Some f assms show thesis
      by (intro segment [of i]) (simp_all add: get_segment_scan_def set_bit_def cr_ok_def unat_seg_id [OF lt])
  qed
qed

lemma set_segment_ok:
  assumes "cr_ok cr" "i < seg_count cr"
  shows "set_segment (word_of_nat i) cr =
    Inr (completed_counter cr + 1 = calc_segments_count (cr_resource cr),
         cr\<lparr>busy_segments := (busy_segments cr)[i := False],
            completed_segments := (completed_segments cr)[i := True],
            completed_counter := completed_counter cr + 1\<rparr>)"
  using assms unfolding set_segment_def set_bit_def cr_ok_def unat_seg_id [OF assms(2)]
  by (simp add: Let_def)

lemma unset_busy_ok:
  assumes "cr_ok cr" "i < seg_count cr"
  shows "unset_busy (word_of_nat i) cr = Inr (cr\<lparr>busy_segments := (busy_segments cr)[i := False]\<rparr>)"
  using assms unfolding unset_busy_def set_bit_def cr_ok_def unat_seg_id [OF assms(2)] by simp

lemma unset_busy_no_segment: "cr_ok cr \<Longrightarrow> unset_busy NO_SEGMENT_ID cr = Inl OutOfBounds"
  using seg_count_bound [of cr] by (simp add: unset_busy_def set_bit_def cr_ok_def)

lemma segment_fits:
  assumes "i < (n :: nat)"
  shows "i * 1024 + 1024 \<le> n * 1024"
  using mult_le_mono1 [OF Suc_leI [OF assms], of 1024] by simp

lemma write_data_ok:
  assumes "cr_ok cr" "i < seg_count cr" "length bs \<le> SEGMENT_SIZE"
  shows "write_data \<lparr>seg_id = w, seg_data = Some (i * SEGMENT_SIZE)\<rparr> bs cr =
    Inr (cr\<lparr>cr_data := take (i * SEGMENT_SIZE) (cr_data cr) @ map Some bs @
              drop (i * SEGMENT_SIZE + length bs) (cr_data cr)\<rparr>)"
  using assms segment_fits [OF assms(2)] by (simp add: write_data_def memcpy_def cr_ok_def)

text \<open>A write of a whole segment replaces its block and leaves every other block.\<close>

lemma take_drop_write:
  assumes "length d = n * k" "i < n" "j < n" "length b \<le> k"
  shows "take k (drop (j * k) (take (i * k) d @ b @ drop (i * k + length b) d)) =
    (if j = i then b @ drop (length b) (take k (drop (i * k) d)) else take k (drop (j * k) d))"
proof -
  have fits: "i * k + k \<le> length d" "j * k + k \<le> length d"
    using assms(1-3) mult_le_mono1 [of "Suc i" n k] mult_le_mono1 [of "Suc j" n k] by simp_all
  consider "j = i" | "j < i" | "i < j" by linarith
  then show ?thesis
  proof cases
    case 1
    have "length (take (i * k) d) = i * k" using fits(1) by simp
    then have "drop (i * k) (take (i * k) d @ b @ drop (i * k + length b) d) =
        b @ drop (i * k + length b) d" by simp
    moreover have "take k (b @ drop (i * k + length b) d) =
        b @ take (k - length b) (drop (i * k + length b) d)" using assms(4) by simp
    moreover have "drop (length b) (take k (drop (i * k) d)) =
        take (k - length b) (drop (i * k + length b) d)"
      by (simp add: drop_take add.commute)
    ultimately show ?thesis using 1 by simp
  next
    case 2
    then have "Suc j * k \<le> i * k" by (intro mult_le_mono1) simp
    then have le: "j * k + k \<le> i * k" by (simp add: add.commute)
    have "take k (drop (j * k) (take (i * k) d)) = take k (drop (j * k) d)"
      using le by (simp add: drop_take min_def)
    moreover have "j * k + k \<le> length (take (i * k) d)" using le fits(1) by simp
    ultimately show ?thesis using 2 by simp
  next
    case 3
    then have "Suc i * k \<le> j * k" by (intro mult_le_mono1) simp
    then have le: "i * k + k \<le> j * k" by (simp add: add.commute)
    have "drop (j * k) (take (i * k) d @ b @ drop (i * k + length b) d) = drop (j * k) d"
      using 3 le fits assms(4) by (simp add: drop_append)
    then show ?thesis using 3 by simp
  qed
qed

end
