(* ===== verification/Host_Model.thy ===== *)
theory Host_Model
  imports Resource_Model
begin

text \<open>
  \<^verbatim>\<open>include/Host.h\<close>, \<^verbatim>\<open>src/Host.cpp\<close>: a peer, identified by its address, with the timeout
  bookkeeping that bans slow peers. The address type of Boost.Asio is a parameter: the
  code only compares addresses. The constructor leaves \<open>ban_time\<close> unset, so the value
  found in the fresh memory is an argument of the constructor's model. The member functions
  that follow \<open>weak_ptr\<close>s take the store they point into.
\<close>

section \<open>The class\<close>

record 'ip Host =
  host_ip :: 'ip
  no_of_missed_updates :: Uint16
  timeout_counter :: Int8
  retarded :: bool
  ban_time :: time_t
  possesed_resources :: "rptr list"

definition Host_new :: "time_t \<Rightarrow> 'ip \<Rightarrow> 'ip Host" where
  "Host_new junk ip =
     \<lparr>host_ip = ip, no_of_missed_updates = 0, timeout_counter = 0, retarded = False,
      ban_time = junk, possesed_resources = []\<rparr>"

text \<open>The copy constructor keeps the address only.\<close>

definition Host_copy :: "time_t \<Rightarrow> 'ip Host \<Rightarrow> 'ip Host" where
  "Host_copy junk other = Host_new junk (host_ip other)"

definition Host_eq :: "'ip Host \<Rightarrow> 'ip Host \<Rightarrow> bool" where
  "Host_eq a b = (host_ip a = host_ip b)"

definition Host_neq :: "'ip Host \<Rightarrow> 'ip Host \<Rightarrow> bool" where
  "Host_neq a b = (host_ip a \<noteq> host_ip b)"

text \<open>\<open>has_resource\<close> and \<open>Resource::has_host\<close> dereference every pointer of the vector.\<close>

definition Host_has_resource :: "(rptr \<rightharpoonup> Resource) \<Rightarrow> 'ip Host \<Rightarrow> Resource \<Rightarrow> bool result" where
  "Host_has_resource mem h res =
     bindE (count_ifE
              (\<lambda>it. bindE (of_option NullDeref (mem it)) (\<lambda>r. Inr (Resource_eq res r)))
              (possesed_resources h))
       (\<lambda>n. Inr (n \<noteq> 0))"

definition Resource_has_host :: "(hptr \<rightharpoonup> 'ip Host) \<Rightarrow> Resource \<Rightarrow> 'ip Host \<Rightarrow> bool result" where
  "Resource_has_host mem r host =
     bindE (count_ifE
              (\<lambda>it. bindE (of_option NullDeref (mem it)) (\<lambda>h. Inr (Host_eq h host)))
              (hosts_in_possession r))
       (\<lambda>n. Inr (n \<noteq> 0))"

definition Host_remove_resource :: "rptr \<Rightarrow> 'ip Host \<Rightarrow> 'ip Host" where
  "Host_remove_resource res h =
     h\<lparr>possesed_resources := filter (\<lambda>it. it \<noteq> res) (possesed_resources h)\<rparr>"

text \<open>\<open>system_clock::to_time_t\<close> cuts a clock reading to whole seconds.\<close>

definition to_time_t :: "clock \<Rightarrow> time_t" where
  "to_time_t t = int (t div 1000000000)"

definition is_retarded :: "clock \<Rightarrow> 'ip Host \<Rightarrow> bool" where
  "is_retarded now h = (ban_time h > to_time_t now)"

definition increase_timeout_counter :: "clock \<Rightarrow> 'ip Host \<Rightarrow> 'ip Host" where
  "increase_timeout_counter now h =
     (let h = h\<lparr>timeout_counter := timeout_counter h + 1\<rparr>
      in if sint (timeout_counter h) \<ge> TIMEOUT_COUNTER_LIMIT
         then h\<lparr>retarded := True, ban_time := to_time_t (now + BAN_TIME)\<rparr>
         else h)"

text \<open>\<open>get_ban_time_point\<close> returns the current time; the ban is in a comment.\<close>

definition get_ban_time_point :: "clock \<Rightarrow> 'ip Host \<Rightarrow> clock" where
  "get_ban_time_point now h = now"

definition get_endpoint :: "'ip Host \<Rightarrow> 'ip \<times> Uint16" where
  "get_endpoint h = (host_ip h, TCP_SERVER_PORT)"

section \<open>Lemmas\<close>

lemma Host_new_simps [simp]:
  "host_ip (Host_new j ip) = ip" "no_of_missed_updates (Host_new j ip) = 0"
  "timeout_counter (Host_new j ip) = 0" "ban_time (Host_new j ip) = j"
  "possesed_resources (Host_new j ip) = []"
  by (simp_all add: Host_new_def)

lemma Host_remove_resource_simps [simp]:
  "host_ip (Host_remove_resource r h) = host_ip h"
  "no_of_missed_updates (Host_remove_resource r h) = no_of_missed_updates h"
  "possesed_resources (Host_remove_resource r h) =
     filter (\<lambda>it. it \<noteq> r) (possesed_resources h)"
  by (simp_all add: Host_remove_resource_def)

lemma Host_has_resource_ok:
  assumes "\<And>p. p \<in> set (possesed_resources h) \<Longrightarrow> mem p \<noteq> None"
  shows "Host_has_resource mem h res =
    Inr (\<exists>p \<in> set (possesed_resources h). res_key res = res_key (the (mem p)))"
proof -
  let ?q = "\<lambda>p. Resource_eq res (the (mem p))"
  have "count_ifE (\<lambda>it. bindE (of_option NullDeref (mem it)) (\<lambda>r. Inr (Resource_eq res r)))
          (possesed_resources h) = Inr (length (filter ?q (possesed_resources h)))"
    by (rule count_ifE_Inr) (use assms in force)
  then show ?thesis
    by (auto simp: Host_has_resource_def Resource_eq_iff filter_empty_conv)
qed

lemma to_time_t_ban [simp]: "to_time_t (now + BAN_TIME) = to_time_t now + 1"
  by (simp add: to_time_t_def)

lemma increase_timeout_counter_frame [simp]:
  "host_ip (increase_timeout_counter now h) = host_ip h"
  "no_of_missed_updates (increase_timeout_counter now h) = no_of_missed_updates h"
  "possesed_resources (increase_timeout_counter now h) = possesed_resources h"
  "timeout_counter (increase_timeout_counter now h) = timeout_counter h + 1"
  by (simp_all add: increase_timeout_counter_def Let_def)

text \<open>Repeated timeouts of one host, at the given times.\<close>

fun timeouts :: "clock list \<Rightarrow> 'ip Host \<Rightarrow> 'ip Host" where
  "timeouts [] h = h"
| "timeouts (t # ts) h = timeouts ts (increase_timeout_counter t h)"

lemma timeouts_append: "timeouts (ts @ us) h = timeouts us (timeouts ts h)"
  by (induction ts arbitrary: h) simp_all

lemma timeouts_counter:
  "timeout_counter (timeouts ts h) = timeout_counter h + word_of_nat (length ts)"
  by (induction ts arbitrary: h) (simp_all add: algebra_simps)

lemma sint_byte_small: "- 128 \<le> k \<Longrightarrow> k < 128 \<Longrightarrow> sint (word_of_int k :: Int8) = k"
  by (simp add: sint_sbintrunc' signed_take_bit_int_eq_self)

lemma sint_byte:
  assumes "n < 256"
  shows "sint (word_of_nat n :: Int8) = (if n < 128 then int n else int n - 256)"
proof (cases "n < 128")
  case True
  then show ?thesis using sint_byte_small [of "int n"] by simp
next
  case False
  have "(word_of_nat n :: Int8) = word_of_int (int n - 256)"
    by simp
  then have "sint (word_of_nat n :: Int8) = int n - 256"
    using sint_byte_small [of "int n - 256"] False assms by (simp only:)
  with False show ?thesis by simp
qed

lemma sint_counter_ge_limit:
  "sint (word_of_nat n :: Int8) \<ge> 20 \<longleftrightarrow> 20 \<le> n mod 256 \<and> n mod 256 < 128"
proof -
  have "(word_of_nat n :: Int8) = word_of_nat (n mod 256)"
    by (simp add: word_of_nat_eq_iff take_bit_eq_mod)
  then show ?thesis using sint_byte [of "n mod 256"] by auto
qed

section \<open>The ban\<close>

text \<open>C38: the effect of one more timeout of a host that has had \<open>length ts\<close> of them. The signed
  8-bit counter is never reset, so the host is banned (until the next whole second) exactly
  when the number of timeouts modulo 256 lies between 20 and 127; in the other half of the
  cycle the counter is negative or small and a timeout leaves the ban as it was.\<close>

theorem host_ban_step:
  "ban_time (timeouts (ts @ [t]) (Host_new j ip)) =
     (if 20 \<le> Suc (length ts) mod 256 \<and> Suc (length ts) mod 256 < 128
      then to_time_t t + 1 else ban_time (timeouts ts (Host_new j ip)))"
proof -
  let ?h = "timeouts ts (Host_new j ip)"
  have "timeout_counter ?h + 1 = word_of_nat (Suc (length ts))"
    by (simp add: timeouts_counter add.commute)
  then have "sint (timeout_counter ?h + 1) \<ge> 20 \<longleftrightarrow>
      20 \<le> Suc (length ts) mod 256 \<and> Suc (length ts) mod 256 < 128"
    by (simp only: sint_counter_ge_limit)
  then show ?thesis
    by (simp add: timeouts_append increase_timeout_counter_def Let_def del: BAN_TIME_def)
qed

text \<open>How long a ban lasts. A host banned by its latest timeout (at time \<open>t\<close>) is refused
  exactly up to the end of the second in which that timeout was counted, whatever value
  \<open>ban_time\<close> had before.\<close>

lemma host_ban_window:
  assumes "20 \<le> Suc (length ts) mod 256" "Suc (length ts) mod 256 < 128"
  shows "is_retarded now (timeouts (ts @ [t]) (Host_new j ip)) \<longleftrightarrow>
         now div 1000000000 \<le> t div 1000000000"
proof -
  have "timeout_counter (timeouts ts (Host_new j ip)) + 1 = word_of_nat (Suc (length ts))"
    by (simp add: timeouts_counter add.commute)
  with assms have "sint (timeout_counter (timeouts ts (Host_new j ip)) + 1) \<ge> 20"
    by (simp only: sint_counter_ge_limit)
  then have "ban_time (timeouts (ts @ [t]) (Host_new j ip)) = to_time_t t + 1"
    by (simp add: timeouts_append increase_timeout_counter_def Let_def del: BAN_TIME_def)
  then show ?thesis by (auto simp: is_retarded_def to_time_t_def)
qed

lemma host_ban_window_example:
  "is_retarded 1999999999 (timeouts (replicate 19 5 @ [1000000000]) (Host_new 0 True)) \<and>
   \<not> is_retarded 2000000000 (timeouts (replicate 19 5 @ [1000000000]) (Host_new 0 True))"
  using host_ban_window [of "replicate 19 5" 1999999999 1000000000 0 True]
    host_ban_window [of "replicate 19 5" 2000000000 1000000000 0 True] by simp

end
