(* ===== verification/Resource_Database.thy ===== *)
theory Resource_Database
  imports Host_Model
begin

text \<open>
  \<^verbatim>\<open>include/ResourceDatabase.h\<close>, \<^verbatim>\<open>src/ResourceDatabase.cpp\<close>: the bipartite graph of hosts and
  files. Hosts and resources are heap objects owned by the vectors \<open>hosts\<close> and
  \<open>resources\<close> and pointed to by \<open>weak_ptr\<close>s from the other side, so the state carries a
  store for each: an address maps to the object while it is alive, and locking a \<open>weak_ptr\<close>
  to a dead object yields the null pointer, whose dereference is a fault. Every public
  operation holds \<open>database_mutex\<close> for its whole body, so each is one atomic step.
  The lemmas give the representation invariant, that no operation faults under it, and the
  abstract relation of addresses and files the operations implement (locale \<open>safe_component\<close>, in \<open>Database_Invariant\<close>).
\<close>

section \<open>State\<close>

record 'ip database =
  my_host :: hptr
  resources :: "rptr list"
  hosts :: "hptr list"
  host_mem :: "hptr \<rightharpoonup> 'ip Host"
  res_mem :: "rptr \<rightharpoonup> Resource"
  next_host :: hptr
  next_res :: rptr
  fresh_mem :: "hptr \<Rightarrow> time_t"  \<comment> \<open>what uninitialised \<open>ban_time\<close> fields contain\<close>

definition deref_host :: "'ip database \<Rightarrow> hptr \<Rightarrow> 'ip Host result" where
  "deref_host db p = of_option NullDeref (host_mem db p)"

definition deref_res :: "'ip database \<Rightarrow> rptr \<Rightarrow> Resource result" where
  "deref_res db p = of_option NullDeref (res_mem db p)"

definition upd_host :: "hptr \<Rightarrow> ('ip Host \<Rightarrow> 'ip Host) \<Rightarrow> 'ip database \<Rightarrow> 'ip database" where
  "upd_host p f db = db\<lparr>host_mem := (host_mem db)(p := map_option f (host_mem db p))\<rparr>"

definition upd_res :: "rptr \<Rightarrow> (Resource \<Rightarrow> Resource) \<Rightarrow> 'ip database \<Rightarrow> 'ip database" where
  "upd_res p f db = db\<lparr>res_mem := (res_mem db)(p := map_option f (res_mem db p))\<rparr>"

text \<open>\<open>hosts.emplace_back(std::make_shared<Host>(host))\<close> and the same for resources.\<close>

definition emplace_host :: "'ip \<Rightarrow> 'ip database \<Rightarrow> hptr \<times> 'ip database" where
  "emplace_host ip db =
     (let p = next_host db
      in (p, db\<lparr>host_mem := (host_mem db)(p \<mapsto> Host_new (fresh_mem db p) ip),
               hosts := hosts db @ [p], next_host := Suc p\<rparr>))"

definition emplace_resource :: "Resource \<Rightarrow> 'ip database \<Rightarrow> rptr \<times> 'ip database" where
  "emplace_resource res db =
     (let p = next_res db
      in (p, db\<lparr>res_mem := (res_mem db)(p \<mapsto> Resource_copy res),
               resources := resources db @ [p], next_res := Suc p\<rparr>))"

text \<open>The searches by \<open>operator==\<close> that open most operations.\<close>

definition find_resource :: "'ip database \<Rightarrow> Resource \<Rightarrow> rptr option result" where
  "find_resource db res =
     find_ifE (\<lambda>it. bindE (deref_res db it) (\<lambda>r. Inr (Resource_eq r res))) (resources db)"

definition find_host :: "'ip database \<Rightarrow> 'ip \<Rightarrow> hptr option result" where
  "find_host db ip =
     find_ifE (\<lambda>it. bindE (deref_host db it) (\<lambda>h. Inr (host_ip h = ip))) (hosts db)"

section \<open>Operations\<close>

text \<open>The constructor: the local host is copied and becomes the first host.\<close>

definition Resource_Database_new :: "(hptr \<Rightarrow> time_t) \<Rightarrow> 'ip \<Rightarrow> 'ip database" where
  "Resource_Database_new fresh ip =
     \<lparr>my_host = 0, resources = [], hosts = [0],
      host_mem = [0 \<mapsto> Host_new (fresh 0) ip], res_mem = Map.empty,
      next_host = 1, next_res = 0, fresh_mem = fresh\<rparr>"

definition has_file :: "'ip database \<Rightarrow> Resource \<Rightarrow> bool result" where
  "has_file db res =
     bindE (deref_host db (my_host db)) (\<lambda>me.
     bindE (find_host db (host_ip me)) (\<lambda>host.
     bindE (of_option NullDeref host) (\<lambda>p.
     bindE (deref_host db p) (\<lambda>h.
     bindE (find_ifE (\<lambda>it. bindE (deref_res db it) (\<lambda>r. Inr (Resource_eq r res)))
              (possesed_resources h))
       (\<lambda>res_i. Inr (res_i \<noteq> None))))))"

definition push_links :: "hptr \<Rightarrow> rptr \<Rightarrow> 'ip database \<Rightarrow> 'ip database" where
  "push_links h r db =
     upd_host h (\<lambda>x. x\<lparr>possesed_resources := possesed_resources x @ [r]\<rparr>)
       (upd_res r (\<lambda>x. x\<lparr>hosts_in_possession := hosts_in_possession x @ [h]\<rparr>) db)"

definition add_file_internal :: "Resource \<Rightarrow> 'ip \<Rightarrow> 'ip database \<Rightarrow> 'ip database result" where
  "add_file_internal res ip db =
     bindE (find_resource db res) (\<lambda>res_i.
     bindE (find_host db ip) (\<lambda>host_i.
       let (r, db) = (case res_i of Some r \<Rightarrow> (r, db) | None \<Rightarrow> emplace_resource res db);
           (h, db) = (case host_i of Some h \<Rightarrow> (h, db) | None \<Rightarrow> emplace_host ip db)
       in Inr (push_links h r db)))"

definition add_file :: "Resource \<Rightarrow> 'ip \<Rightarrow> 'ip database \<Rightarrow> 'ip database result" where
  "add_file res ip db = add_file_internal res ip db"

definition remove_file :: "Resource \<Rightarrow> 'ip \<Rightarrow> 'ip database \<Rightarrow> (bool \<times> 'ip database) result" where
  "remove_file res ip db =
     bindE (find_resource db res) (\<lambda>res_i.
       case res_i of
         None \<Rightarrow> Inr (False, db)
       | Some r \<Rightarrow>
           bindE (deref_res db r) (\<lambda>x.
           bindE (find_ifE (\<lambda>it. bindE (deref_host db it) (\<lambda>h. Inr (host_ip h = ip)))
                    (hosts_in_possession x)) (\<lambda>host_i.
             case host_i of
               None \<Rightarrow> Inr (False, db)
             | Some h \<Rightarrow> Inr (True, upd_res r (Resource_remove_host h)
                                    (upd_host h (Host_remove_resource r) db)))))"

definition who_has_file :: "'ip database \<Rightarrow> Resource \<Rightarrow> rptr option result" where
  "who_has_file db resource_a = find_resource db resource_a"

definition who_has_file_header :: "endian \<Rightarrow> 'ip database \<Rightarrow> Uint8 list \<Rightarrow> rptr option result" where
  "who_has_file_header e db resource_header =
     who_has_file db (Resource_from_header e resource_header)"

definition add_file_local :: "Resource \<Rightarrow> 'ip database \<Rightarrow> 'ip database result" where
  "add_file_local res db =
     bindE (deref_host db (my_host db)) (\<lambda>me. add_file res (host_ip me) db)"

definition remove_file_local :: "Resource \<Rightarrow> 'ip database \<Rightarrow> (bool \<times> 'ip database) result" where
  "remove_file_local res db =
     bindE (deref_host db (my_host db)) (\<lambda>me. remove_file res (host_ip me) db)"

definition generate_database_headers :: "endian \<Rightarrow> 'ip database \<Rightarrow> Uint8 list list result" where
  "generate_database_headers e db =
     bindE (deref_host db (my_host db)) (\<lambda>me.
     bindE (find_host db (host_ip me)) (\<lambda>host.
     bindE (of_option NullDeref host) (\<lambda>p.
     bindE (deref_host db p) (\<lambda>h.
       mapE (\<lambda>it. bindE (deref_res db it) (generate_resource_header e))
         (possesed_resources h)))))"

text \<open>
  \<open>update_host\<close>: the advertised host is a temporary whose \<open>weak_ptr\<close>s point to resources
  kept alive by the caller, so it is given by its address and those resources.
\<close>

definition update_resource :: "hptr \<Rightarrow> Resource \<Rightarrow> 'ip database \<Rightarrow> 'ip database result" where
  "update_resource to_update resource db =
     bindE (deref_host db to_update) (\<lambda>h.
     bindE (count_ifE (\<lambda>it. bindE (deref_res db it) (\<lambda>r. Inr (Resource_eq resource r)))
              (possesed_resources h)) (\<lambda>n.
       if n = 0 then add_file_internal resource (host_ip h) db else Inr db))"

definition update_host :: "'ip \<Rightarrow> Resource list \<Rightarrow> 'ip database \<Rightarrow> 'ip database result" where
  "update_host ip adv db =
     bindE (find_host db ip) (\<lambda>host.
       let (p, db) = (case host of Some p \<Rightarrow> (p, db) | None \<Rightarrow> emplace_host ip db);
           db = upd_host p (\<lambda>h. h\<lparr>no_of_missed_updates := 0\<rparr>) db
       in foldE (update_resource p) adv db)"

definition revoke_step :: "rptr \<Rightarrow> hptr \<Rightarrow> 'ip database \<Rightarrow> 'ip database result" where
  "revoke_step r it db =
     bindE (deref_host db it) (\<lambda>_. Inr (upd_host it (Host_remove_resource r) db))"

definition revoke_resource :: "Resource \<Rightarrow> 'ip database \<Rightarrow> 'ip database result" where
  "revoke_resource resource_a db =
     bindE (find_resource db resource_a) (\<lambda>res.
       case res of
         None \<Rightarrow> Inr db
       | Some r \<Rightarrow>
           (let db = upd_res r (\<lambda>x. x\<lparr>invalidated := True\<rparr>) db
            in bindE (deref_res db r) (\<lambda>x. foldE (revoke_step r) (hosts_in_possession x) db)))"

text \<open>
  \<open>remove_host\<close> erases the host; when no \<open>shared_ptr\<close> outside the database holds it
  (\<open>pinned\<close>), the object dies with the vector's element.
\<close>

definition remove_host :: "hptr set \<Rightarrow> hptr \<Rightarrow> 'ip database \<Rightarrow> 'ip database result" where
  "remove_host pinned host db =
     (if host \<noteq> my_host db
      then bindE (deref_host db host) (\<lambda>h.
           bindE (foldE (\<lambda>it db. bindE (deref_res db it)
                                    (\<lambda>_. Inr (upd_res it (Resource_remove_host host) db)))
                    (possesed_resources h) db) (\<lambda>db.
             Inr (db\<lparr>hosts := remove1 host (hosts db),
                    host_mem := (if host \<in> pinned then host_mem db
                                 else (host_mem db)(host := None))\<rparr>)))
      else Inr db)"

text \<open>
  The loop of \<open>check_for_gone_hosts\<close> erases from the vector it iterates over: after an
  erasure the loop's iterator is invalid and advancing it is a fault.
\<close>

definition check_gone_step :: "hptr set \<Rightarrow> Uint16 \<Rightarrow> hptr \<Rightarrow> 'ip database \<Rightarrow> 'ip database result" where
  "check_gone_step pinned left_margin it db =
     bindE (deref_host db it) (\<lambda>h.
       if no_of_missed_updates h \<ge> left_margin
       then bindE (remove_host pinned it db) (\<lambda>db'.
              if hosts db' = hosts db then Inr db' else Inl InvalidIterator)
       else Inr db)"

definition check_for_gone_hosts :: "hptr set \<Rightarrow> Uint16 \<Rightarrow> 'ip database \<Rightarrow> 'ip database result" where
  "check_for_gone_hosts pinned left_margin db =
     foldE (check_gone_step pinned left_margin) (hosts db) db"

definition get_localhost :: "'ip database \<Rightarrow> hptr" where
  "get_localhost db = my_host db"

definition getResources :: "'ip database \<Rightarrow> rptr list" where
  "getResources db = resources db"

section \<open>The representation invariant and the abstract relation\<close>

definition hostOf :: "'ip database \<Rightarrow> hptr \<Rightarrow> 'ip Host" where
  "hostOf db p = the (host_mem db p)"

definition resOf :: "'ip database \<Rightarrow> rptr \<Rightarrow> Resource" where
  "resOf db p = the (res_mem db p)"

text \<open>Both vectors own live, pairwise different objects; every pointer leads into them.\<close>

definition db_heap_ok :: "'ip database \<Rightarrow> bool" where
  "db_heap_ok db \<longleftrightarrow>
     my_host db \<in> set (hosts db) \<and> distinct (hosts db) \<and> distinct (resources db) \<and>
     (\<forall>p \<in> set (hosts db). host_mem db p \<noteq> None \<and> p < next_host db) \<and>
     (\<forall>p \<in> set (resources db). res_mem db p \<noteq> None \<and> p < next_res db) \<and>
     (\<forall>p \<in> set (hosts db). set (possesed_resources (hostOf db p)) \<subseteq> set (resources db)) \<and>
     (\<forall>p \<in> set (resources db). set (hosts_in_possession (resOf db p)) \<subseteq> set (hosts db))"

text \<open>Addresses and (name, size) pairs identify hosts and resources.\<close>

definition db_keys_ok :: "'ip database \<Rightarrow> bool" where
  "db_keys_ok db \<longleftrightarrow>
     inj_on (\<lambda>p. host_ip (hostOf db p)) (set (hosts db)) \<and>
     inj_on (\<lambda>p. res_key (resOf db p)) (set (resources db))"

text \<open>
  A host's resource points back to it, and a resource that is not revoked is possessed by
  every host it points to. No update was ever counted as missed.
\<close>

definition db_links_ok :: "'ip database \<Rightarrow> bool" where
  "db_links_ok db \<longleftrightarrow>
     (\<forall>p \<in> set (hosts db). \<forall>r \<in> set (possesed_resources (hostOf db p)).
        p \<in> set (hosts_in_possession (resOf db r))) \<and>
     (\<forall>r \<in> set (resources db). \<not> invalidated (resOf db r) \<longrightarrow>
        (\<forall>p \<in> set (hosts_in_possession (resOf db r)).
           r \<in> set (possesed_resources (hostOf db p)))) \<and>
     (\<forall>p \<in> set (hosts db). no_of_missed_updates (hostOf db p) = 0)"

definition db_inv :: "'ip database \<Rightarrow> bool" where
  "db_inv db \<longleftrightarrow> db_heap_ok db \<and> db_keys_ok db \<and> db_links_ok db"

text \<open>The abstract contents: who has which file, which files are known, which are revoked.\<close>

definition owners :: "'ip database \<Rightarrow> ('ip \<times> res_key) set" where
  "owners db = {(host_ip (hostOf db p), res_key (resOf db r)) | p r.
                  p \<in> set (hosts db) \<and> r \<in> set (possesed_resources (hostOf db p))}"

definition files :: "'ip database \<Rightarrow> res_key set" where
  "files db = (\<lambda>r. res_key (resOf db r)) ` set (resources db)"

definition revoked_files :: "'ip database \<Rightarrow> res_key set" where
  "revoked_files db =
     (\<lambda>r. res_key (resOf db r)) ` {r \<in> set (resources db). invalidated (resOf db r)}"

definition peers :: "'ip database \<Rightarrow> 'ip set" where
  "peers db = (\<lambda>p. host_ip (hostOf db p)) ` set (hosts db)"

definition local_ip :: "'ip database \<Rightarrow> 'ip" where
  "local_ip db = host_ip (hostOf db (my_host db))"

text \<open>The abstract state and the operations the database promises on it.\<close>

record 'ip registry_state =
  reg_owners :: "('ip \<times> res_key) set"
  reg_files :: "res_key set"
  reg_revoked :: "res_key set"
  reg_peers :: "'ip set"
  reg_local :: 'ip

definition abs_db :: "'ip database \<Rightarrow> 'ip registry_state" where
  "abs_db db = \<lparr>reg_owners = owners db, reg_files = files db, reg_revoked = revoked_files db,
                reg_peers = peers db, reg_local = local_ip db\<rparr>"

definition spec_add :: "res_key \<Rightarrow> 'ip \<Rightarrow> 'ip registry_state \<Rightarrow> 'ip registry_state" where
  "spec_add k ip s = s\<lparr>reg_owners := insert (ip, k) (reg_owners s),
                        reg_files := insert k (reg_files s),
                        reg_peers := insert ip (reg_peers s)\<rparr>"

definition spec_remove :: "res_key \<Rightarrow> 'ip \<Rightarrow> 'ip registry_state \<Rightarrow> 'ip registry_state" where
  "spec_remove k ip s = s\<lparr>reg_owners := reg_owners s - {(ip, k)}\<rparr>"

definition spec_revoke :: "res_key \<Rightarrow> 'ip registry_state \<Rightarrow> 'ip registry_state" where
  "spec_revoke k s = s\<lparr>reg_owners := {x \<in> reg_owners s. snd x \<noteq> k},
                        reg_revoked := reg_revoked s \<union> ({k} \<inter> reg_files s)\<rparr>"

definition spec_update :: "'ip \<Rightarrow> res_key set \<Rightarrow> 'ip registry_state \<Rightarrow> 'ip registry_state" where
  "spec_update ip ks s = s\<lparr>reg_owners := reg_owners s \<union> {ip} \<times> ks,
                           reg_files := reg_files s \<union> ks,
                           reg_peers := insert ip (reg_peers s)\<rparr>"

section \<open>Calls\<close>

text \<open>The state-changing calls other components make, and their specification.\<close>

datatype 'ip db_call =
    Add_File Resource 'ip
  | Add_File_Local Resource
  | Remove_File Resource 'ip
  | Remove_File_Local Resource
  | Update_Host 'ip "Resource list"
  | Revoke_Resource Resource
  | Check_For_Gone_Hosts "hptr set"

fun exec_call :: "'ip db_call \<Rightarrow> 'ip database \<Rightarrow> 'ip database result" where
  "exec_call (Add_File res ip) db = add_file res ip db"
| "exec_call (Add_File_Local res) db = add_file_local res db"
| "exec_call (Remove_File res ip) db = bindE (remove_file res ip db) (\<lambda>(b, db). Inr db)"
| "exec_call (Remove_File_Local res) db = bindE (remove_file_local res db) (\<lambda>(b, db). Inr db)"
| "exec_call (Update_Host ip adv) db = update_host ip adv db"
| "exec_call (Revoke_Resource res) db = revoke_resource res db"
| "exec_call (Check_For_Gone_Hosts pinned) db = check_for_gone_hosts pinned LEFT_MARGIN db"

fun spec_call :: "'ip db_call \<Rightarrow> 'ip registry_state \<Rightarrow> 'ip registry_state" where
  "spec_call (Add_File res ip) s = spec_add (res_key res) ip s"
| "spec_call (Add_File_Local res) s = spec_add (res_key res) (reg_local s) s"
| "spec_call (Remove_File res ip) s = spec_remove (res_key res) ip s"
| "spec_call (Remove_File_Local res) s = spec_remove (res_key res) (reg_local s) s"
| "spec_call (Update_Host ip adv) s = spec_update ip (res_key ` set adv) s"
| "spec_call (Revoke_Resource res) s = spec_revoke (res_key res) s"
| "spec_call (Check_For_Gone_Hosts pinned) s = s"

end
