(* ===== verification/Database_Invariant.thy ===== *)
theory Database_Invariant
  imports Resource_Database
begin

text \<open>
  The correctness of \<open>Resource_Database\<close>: each operation keeps the representation
  invariant, does not fault under it and acts on the abstract relation as its
  specification says. The operations are composed of a few primitive changes of the store
  (a new host, a new resource, a link added or dropped, a resource marked as revoked), and
  the lemmas follow that composition.
\<close>

section \<open>Projections\<close>

lemma upd_host_simps [simp]:
  "my_host (upd_host p f db) = my_host db" "hosts (upd_host p f db) = hosts db"
  "resources (upd_host p f db) = resources db" "res_mem (upd_host p f db) = res_mem db"
  "next_host (upd_host p f db) = next_host db" "next_res (upd_host p f db) = next_res db"
  "host_mem (upd_host p f db) q = None \<longleftrightarrow> host_mem db q = None"
  "resOf (upd_host p f db) = resOf db"
  by (auto simp: upd_host_def resOf_def)

lemma upd_res_simps [simp]:
  "my_host (upd_res p f db) = my_host db" "hosts (upd_res p f db) = hosts db"
  "resources (upd_res p f db) = resources db" "host_mem (upd_res p f db) = host_mem db"
  "next_host (upd_res p f db) = next_host db" "next_res (upd_res p f db) = next_res db"
  "res_mem (upd_res p f db) q = None \<longleftrightarrow> res_mem db q = None"
  "hostOf (upd_res p f db) = hostOf db"
  by (auto simp: upd_res_def hostOf_def)

lemma hostOf_upd_host:
  "host_mem db p \<noteq> None \<Longrightarrow>
   hostOf (upd_host p f db) q = (if q = p then f (hostOf db p) else hostOf db q)"
  by (auto simp: upd_host_def hostOf_def)

lemma resOf_upd_res:
  "res_mem db p \<noteq> None \<Longrightarrow>
   resOf (upd_res p f db) q = (if q = p then f (resOf db p) else resOf db q)"
  by (auto simp: upd_res_def resOf_def)

lemmas db_inv_defs = db_inv_def db_heap_ok_def db_keys_ok_def db_links_ok_def
lemmas abs_db_defs = abs_db_def owners_def files_def revoked_files_def peers_def local_ip_def

lemma db_inv_host: "db_inv db \<Longrightarrow> p \<in> set (hosts db) \<Longrightarrow> host_mem db p \<noteq> None"
  unfolding db_inv_def db_heap_ok_def by blast

lemma db_inv_res: "db_inv db \<Longrightarrow> r \<in> set (resources db) \<Longrightarrow> res_mem db r \<noteq> None"
  unfolding db_inv_def db_heap_ok_def by blast

lemma db_inv_my_host: "db_inv db \<Longrightarrow> my_host db \<in> set (hosts db)"
  unfolding db_inv_def db_heap_ok_def by blast

lemma db_inv_fresh: "db_inv db \<Longrightarrow> next_host db \<notin> set (hosts db)"
    "db_inv db \<Longrightarrow> next_res db \<notin> set (resources db)"
  unfolding db_inv_def db_heap_ok_def by blast+

lemma db_inv_possesed:
  "db_inv db \<Longrightarrow> p \<in> set (hosts db) \<Longrightarrow> r \<in> set (possesed_resources (hostOf db p)) \<Longrightarrow>
   r \<in> set (resources db)"
  unfolding db_inv_def db_heap_ok_def by blast

lemma db_inv_in_possession:
  "db_inv db \<Longrightarrow> r \<in> set (resources db) \<Longrightarrow> p \<in> set (hosts_in_possession (resOf db r)) \<Longrightarrow>
   p \<in> set (hosts db)"
  unfolding db_inv_def db_heap_ok_def by blast

lemma db_inv_back_link:
  "db_inv db \<Longrightarrow> p \<in> set (hosts db) \<Longrightarrow> r \<in> set (possesed_resources (hostOf db p)) \<Longrightarrow>
   p \<in> set (hosts_in_possession (resOf db r))"
  unfolding db_inv_def db_links_ok_def by blast

lemma db_inv_missed:
  "db_inv db \<Longrightarrow> p \<in> set (hosts db) \<Longrightarrow> no_of_missed_updates (hostOf db p) = 0"
  unfolding db_inv_def db_links_ok_def by blast

lemma db_inv_ip_unique:
  "db_inv db \<Longrightarrow> p \<in> set (hosts db) \<Longrightarrow> q \<in> set (hosts db) \<Longrightarrow>
   host_ip (hostOf db p) = host_ip (hostOf db q) \<Longrightarrow> p = q"
  unfolding db_inv_def db_keys_ok_def inj_on_def by blast

lemma db_inv_key_unique:
  "db_inv db \<Longrightarrow> p \<in> set (resources db) \<Longrightarrow> q \<in> set (resources db) \<Longrightarrow>
   res_key (resOf db p) = res_key (resOf db q) \<Longrightarrow> p = q"
  unfolding db_inv_def db_keys_ok_def inj_on_def by blast

lemma deref_host_ok: "host_mem db p \<noteq> None \<Longrightarrow> deref_host db p = Inr (hostOf db p)"
  by (auto simp: deref_host_def hostOf_def)

lemma deref_res_ok: "res_mem db p \<noteq> None \<Longrightarrow> deref_res db p = Inr (resOf db p)"
  by (auto simp: deref_res_def resOf_def)

section \<open>The searches\<close>

lemma find_resource_ok:
  assumes "db_inv db"
  shows "find_resource db res =
    Inr (find (\<lambda>r. res_key (resOf db r) = res_key res) (resources db))"
  unfolding find_resource_def
  by (rule find_ifE_Inr) (simp add: db_inv_res [OF assms] deref_res_ok Resource_eq_iff)

lemma find_host_ok:
  assumes "db_inv db"
  shows "find_host db ip = Inr (find (\<lambda>p. host_ip (hostOf db p) = ip) (hosts db))"
  unfolding find_host_def by (rule find_ifE_Inr) (simp add: db_inv_host [OF assms] deref_host_ok)

lemma find_host_Some:
  assumes "db_inv db" "p \<in> set (hosts db)"
  shows "find_host db (host_ip (hostOf db p)) = Inr (Some p)"
proof -
  have "find (\<lambda>q. host_ip (hostOf db q) = host_ip (hostOf db p)) (hosts db) = Some p"
    by (rule find_unique) (use assms db_inv_ip_unique in blast)+
  then show ?thesis by (simp add: find_host_ok assms(1))
qed

lemma find_local_host: "db_inv db \<Longrightarrow> find_host db (local_ip db) = Inr (Some (my_host db))"
  unfolding local_ip_def by (rule find_host_Some) (simp_all add: db_inv_my_host)

section \<open>Primitive changes of the store\<close>

lemma emplace_resource_correct:
  assumes "db_inv db" "res_key res \<notin> files db" "emplace_resource res db = (r, db')"
  shows "db_inv db'" "r \<in> set (resources db')" "res_key (resOf db' r) = res_key res"
    "hosts db' = hosts db" "hostOf db' = hostOf db" "my_host db' = my_host db"
    "abs_db db' = (abs_db db)\<lparr>reg_files := insert (res_key res) (files db)\<rparr>"
proof -
  have r: "r = next_res db" "r \<notin> set (resources db)"
    using assms(3) db_inv_fresh(2) [OF assms(1)] by (simp_all add: emplace_resource_def Let_def)
  have db': "db' = db\<lparr>res_mem := (res_mem db)(r \<mapsto> Resource_copy res),
      resources := resources db @ [r], next_res := Suc r\<rparr>"
    using assms(3) r by (simp add: emplace_resource_def Let_def)
  have sel: "my_host db' = my_host db" "hosts db' = hosts db"
      "resources db' = resources db @ [r]" "next_host db' = next_host db" "next_res db' = Suc r"
      "host_mem db' = host_mem db"
      "res_mem db' q = None \<longleftrightarrow> q \<noteq> r \<and> res_mem db q = None" for q
    by (auto simp: db')
  have hOf: "hostOf db' = hostOf db" by (auto simp: db' hostOf_def fun_eq_iff)
  have rOf: "resOf db' q = (if q = r then Resource_copy res else resOf db q)" for q
    by (simp add: db' resOf_def)
  have poss: "q \<noteq> r" if "p \<in> set (hosts db)" "q \<in> set (possesed_resources (hostOf db p))" for p q
    using db_inv_possesed [OF assms(1) that] r(2) by auto
  show "r \<in> set (resources db')" "hosts db' = hosts db" "my_host db' = my_host db"
    by (simp_all add: sel)
  show "hostOf db' = hostOf db" by (fact hOf)
  show "res_key (resOf db' r) = res_key res" by (simp add: rOf)
  have heap: "db_heap_ok db'"
    using assms(1) r unfolding db_heap_ok_def db_inv_def sel hOf rOf by auto
  have keys: "db_keys_ok db'"
    using assms(1,2) r(2) unfolding db_keys_ok_def db_inv_def sel hOf rOf inj_on_def files_def
    by (auto simp: image_iff)
  have links: "db_links_ok db'"
    using assms(1) r(2) poss unfolding db_links_ok_def db_inv_def sel hOf rOf by auto
  from heap keys links show "db_inv db'" by (simp add: db_inv_def)
  have "owners db' = owners db" "peers db' = peers db" "local_ip db' = local_ip db"
    using poss unfolding owners_def peers_def local_ip_def sel hOf rOf by auto
  moreover have "files db' = insert (res_key res) (files db)" "revoked_files db' = revoked_files db"
    using r(2) unfolding files_def revoked_files_def sel rOf by auto
  ultimately show "abs_db db' = (abs_db db)\<lparr>reg_files := insert (res_key res) (files db)\<rparr>"
    by (simp add: abs_db_def)
qed

lemma emplace_host_correct:
  assumes "db_inv db" "ip \<notin> peers db" "emplace_host ip db = (p, db')"
  shows "db_inv db'" "p \<in> set (hosts db')" "host_ip (hostOf db' p) = ip"
    "resources db' = resources db" "resOf db' = resOf db"
    "abs_db db' = (abs_db db)\<lparr>reg_peers := insert ip (peers db)\<rparr>"
proof -
  have p: "p = next_host db" "p \<notin> set (hosts db)"
    using assms(3) db_inv_fresh(1) [OF assms(1)] by (simp_all add: emplace_host_def Let_def)
  let ?h = "Host_new (fresh_mem db p) ip"
  have db': "db' = db\<lparr>host_mem := (host_mem db)(p \<mapsto> ?h), hosts := hosts db @ [p],
      next_host := Suc p\<rparr>"
    using assms(3) p by (simp add: emplace_host_def Let_def)
  have sel: "my_host db' = my_host db" "hosts db' = hosts db @ [p]"
      "resources db' = resources db" "next_host db' = Suc p" "next_res db' = next_res db"
      "res_mem db' = res_mem db"
      "host_mem db' q = None \<longleftrightarrow> q \<noteq> p \<and> host_mem db q = None" for q
    by (auto simp: db')
  have rOf: "resOf db' = resOf db" by (auto simp: db' resOf_def fun_eq_iff)
  have hOf: "hostOf db' q = (if q = p then ?h else hostOf db q)" for q
    by (simp add: db' hostOf_def)
  have bk: "q \<noteq> p" if "r \<in> set (resources db)" "q \<in> set (hosts_in_possession (resOf db r))" for q r
    using db_inv_in_possession [OF assms(1) that] p(2) by auto
  have me: "my_host db \<noteq> p" using db_inv_my_host [OF assms(1)] p(2) by auto
  show "p \<in> set (hosts db')" "resources db' = resources db" "resOf db' = resOf db"
    by (simp_all add: sel rOf)
  show "host_ip (hostOf db' p) = ip" by (simp add: hOf)
  have heap: "db_heap_ok db'"
    using assms(1) p unfolding db_heap_ok_def db_inv_def sel hOf rOf by auto
  have keys: "db_keys_ok db'"
    using assms(1,2) p(2) unfolding db_keys_ok_def db_inv_def sel hOf rOf inj_on_def peers_def
    by (auto simp: image_iff)
  have links: "db_links_ok db'"
    using assms(1) p(2) bk unfolding db_links_ok_def db_inv_def sel hOf rOf by auto
  from heap keys links show "db_inv db'" by (simp add: db_inv_def)
  have "files db' = files db" "revoked_files db' = revoked_files db" "local_ip db' = local_ip db"
    using me unfolding files_def revoked_files_def local_ip_def sel hOf rOf by auto
  moreover have "owners db' = owners db" "peers db' = insert ip (peers db)"
    using p(2) unfolding owners_def peers_def sel hOf rOf by (auto split: if_splits)
  ultimately show "abs_db db' = (abs_db db)\<lparr>reg_peers := insert ip (peers db)\<rparr>"
    by (simp add: abs_db_def)
qed

text \<open>
  The remaining changes keep both vectors: such a change is described by the new host and
  resource at each address.
\<close>

definition same_shape :: "'ip database \<Rightarrow> 'ip database \<Rightarrow> bool" where
  "same_shape db db' \<longleftrightarrow>
     my_host db' = my_host db \<and> hosts db' = hosts db \<and> resources db' = resources db \<and>
     next_host db' = next_host db \<and> next_res db' = next_res db \<and>
     (\<forall>p. host_mem db' p = None \<longleftrightarrow> host_mem db p = None) \<and>
     (\<forall>r. res_mem db' r = None \<longleftrightarrow> res_mem db r = None) \<and>
     (\<forall>p \<in> set (hosts db). host_ip (hostOf db' p) = host_ip (hostOf db p) \<and>
        no_of_missed_updates (hostOf db' p) = 0) \<and>
     (\<forall>r \<in> set (resources db). res_key (resOf db' r) = res_key (resOf db r))"

lemma same_shape_inv:
  assumes "db_inv db" "same_shape db db'"
    and poss: "\<And>p. p \<in> set (hosts db) \<Longrightarrow>
      set (possesed_resources (hostOf db' p)) \<subseteq> set (resources db)"
    and bk: "\<And>r. r \<in> set (resources db) \<Longrightarrow>
      set (hosts_in_possession (resOf db' r)) \<subseteq> set (hosts db)"
    and links: "\<And>p r. p \<in> set (hosts db) \<Longrightarrow> r \<in> set (possesed_resources (hostOf db' p)) \<Longrightarrow>
      p \<in> set (hosts_in_possession (resOf db' r))"
    and rev: "\<And>p r. r \<in> set (resources db) \<Longrightarrow> \<not> invalidated (resOf db' r) \<Longrightarrow>
      p \<in> set (hosts_in_possession (resOf db' r)) \<Longrightarrow> r \<in> set (possesed_resources (hostOf db' p))"
  shows "db_inv db'" "peers db' = peers db" "files db' = files db" "local_ip db' = local_ip db"
proof -
  note sh = assms(2) [unfolded same_shape_def]
  have sel: "my_host db' = my_host db" "hosts db' = hosts db" "resources db' = resources db"
      "next_host db' = next_host db" "next_res db' = next_res db"
    using sh by blast+
  have ip: "host_ip (hostOf db' p) = host_ip (hostOf db p)" if "p \<in> set (hosts db)" for p
    using sh that by blast
  have key: "res_key (resOf db' r) = res_key (resOf db r)" if "r \<in> set (resources db)" for r
    using sh that by blast
  have "db_heap_ok db'"
    using assms(1) sh poss bk unfolding db_heap_ok_def db_inv_def sel by simp
  moreover have "db_keys_ok db'"
    using assms(1) unfolding db_keys_ok_def db_inv_def sel
    by (simp add: ip key cong: inj_on_cong)
  moreover have "db_links_ok db'"
    using sh links rev unfolding db_links_ok_def sel by blast
  ultimately show "db_inv db'" by (simp add: db_inv_def)
  show "peers db' = peers db" "files db' = files db"
    unfolding peers_def files_def sel using ip key by (auto simp: image_iff)
  show "local_ip db' = local_ip db"
    unfolding local_ip_def sel using ip db_inv_my_host [OF assms(1)] by blast
qed

lemma owners_same_shape:
  assumes "db_inv db" "same_shape db db'"
    and "\<And>p. p \<in> set (hosts db) \<Longrightarrow>
      set (possesed_resources (hostOf db' p)) \<subseteq> set (resources db)"
  shows "owners db' = {(host_ip (hostOf db p), res_key (resOf db r)) | p r.
    p \<in> set (hosts db) \<and> r \<in> set (possesed_resources (hostOf db' p))}"
proof -
  have hosts: "hosts db' = hosts db" using assms(2) by (simp add: same_shape_def)
  have "host_ip (hostOf db' p) = host_ip (hostOf db p)" if "p \<in> set (hosts db)" for p
    using assms(2) that unfolding same_shape_def by blast
  moreover have "res_key (resOf db' r) = res_key (resOf db r)"
    if "p \<in> set (hosts db)" "r \<in> set (possesed_resources (hostOf db' p))" for p r
    using assms(2,3) that unfolding same_shape_def by blast
  ultimately show ?thesis unfolding owners_def hosts by (metis (no_types, lifting))
qed

lemma revoked_same_shape:
  assumes "same_shape db db'"
    and "\<And>r. r \<in> set (resources db) \<Longrightarrow> invalidated (resOf db' r) = invalidated (resOf db r)"
  shows "revoked_files db' = revoked_files db"
proof -
  have "resources db' = resources db" using assms(1) by (simp add: same_shape_def)
  moreover have "res_key (resOf db' r) = res_key (resOf db r)" if "r \<in> set (resources db)" for r
    using assms(1) that unfolding same_shape_def by blast
  ultimately show ?thesis unfolding revoked_files_def using assms(2) by (auto simp: image_iff)
qed

text \<open>A pair of an address and a file names at most one link.\<close>

lemma link_unique:
  assumes "db_inv db" "p \<in> set (hosts db)" "q \<in> set (possesed_resources (hostOf db p))"
    "h \<in> set (hosts db)" "r \<in> set (resources db)"
  shows "host_ip (hostOf db p) = host_ip (hostOf db h) \<and> res_key (resOf db q) = res_key (resOf db r)
    \<longleftrightarrow> p = h \<and> q = r"
  using assms db_inv_ip_unique db_inv_key_unique db_inv_possesed by metis

text \<open>A link added between a host and a resource of the database.\<close>

lemma push_links_correct:
  assumes "db_inv db" "h \<in> set (hosts db)" "r \<in> set (resources db)"
  shows "db_inv (push_links h r db)"
    "abs_db (push_links h r db) = (abs_db db)\<lparr>reg_owners :=
       insert (host_ip (hostOf db h), res_key (resOf db r)) (owners db)\<rparr>"
    "hosts (push_links h r db) = hosts db" "resources (push_links h r db) = resources db"
    "my_host (push_links h r db) = my_host db"
proof -
  let ?db = "push_links h r db"
  have live: "host_mem db h \<noteq> None" "res_mem db r \<noteq> None"
    using assms db_inv_host db_inv_res by blast+
  have hOf: "hostOf ?db p = (if p = h then hostOf db h\<lparr>possesed_resources :=
      possesed_resources (hostOf db h) @ [r]\<rparr> else hostOf db p)" for p
    using live by (simp add: push_links_def hostOf_upd_host)
  have rOf: "resOf ?db q = (if q = r then resOf db r\<lparr>hosts_in_possession :=
      hosts_in_possession (resOf db r) @ [h]\<rparr> else resOf db q)" for q
    using live by (simp add: push_links_def resOf_upd_res)
  have sel: "my_host ?db = my_host db" "hosts ?db = hosts db" "resources ?db = resources db"
      "next_host ?db = next_host db" "next_res ?db = next_res db"
      "host_mem ?db p = None \<longleftrightarrow> host_mem db p = None"
      "res_mem ?db q = None \<longleftrightarrow> res_mem db q = None" for p q
    by (simp_all add: push_links_def)
  have sh: "same_shape db ?db"
    using db_inv_missed [OF assms(1)] unfolding same_shape_def sel hOf rOf by simp
  have poss: "set (possesed_resources (hostOf ?db p)) \<subseteq> set (resources db)"
    if "p \<in> set (hosts db)" for p
    using db_inv_possesed [OF assms(1) that] assms(3) by (auto simp: hOf split: if_splits)
  have bk: "set (hosts_in_possession (resOf ?db q)) \<subseteq> set (hosts db)"
    if "q \<in> set (resources db)" for q
    using db_inv_in_possession [OF assms(1) that] assms(2) by (auto simp: rOf split: if_splits)
  have links: "p \<in> set (hosts_in_possession (resOf ?db q))"
    if "p \<in> set (hosts db)" "q \<in> set (possesed_resources (hostOf ?db p))" for p q
    using that db_inv_back_link [OF assms(1)] by (auto simp: hOf rOf split: if_splits)
  have rev: "q \<in> set (possesed_resources (hostOf ?db p))"
    if "q \<in> set (resources db)" "\<not> invalidated (resOf ?db q)"
      "p \<in> set (hosts_in_possession (resOf ?db q))" for p q
    using that assms(1) unfolding db_inv_def db_links_ok_def
    by (auto simp: hOf rOf split: if_splits)
  note main = same_shape_inv [OF assms(1) sh poss bk links rev]
  show "db_inv ?db" by (rule main)
  have "q \<in> set (possesed_resources (hostOf ?db p)) \<longleftrightarrow>
      q \<in> set (possesed_resources (hostOf db p)) \<or> p = h \<and> q = r" for p q
    by (auto simp: hOf)
  note poss_iff = this
  have "owners ?db = {(host_ip (hostOf db p), res_key (resOf db r)) | p r.
      p \<in> set (hosts db) \<and> r \<in> set (possesed_resources (hostOf ?db p))}"
    by (rule owners_same_shape [OF assms(1) sh]) (rule poss)
  then have "owners ?db = insert (host_ip (hostOf db h), res_key (resOf db r)) (owners db)"
    unfolding poss_iff owners_def [of db] using assms(2) by auto
  moreover have "revoked_files ?db = revoked_files db"
    by (rule revoked_same_shape [OF sh]) (simp add: rOf)
  ultimately show "abs_db ?db = (abs_db db)\<lparr>reg_owners :=
       insert (host_ip (hostOf db h), res_key (resOf db r)) (owners db)\<rparr>"
    using main by (simp add: abs_db_def)
  show "hosts ?db = hosts db" "resources ?db = resources db" "my_host ?db = my_host db"
    by (fact sel)+
qed

text \<open>Both directions of a link dropped.\<close>

lemma drop_link_correct:
  assumes "db_inv db" "h \<in> set (hosts db)" "r \<in> set (resources db)"
  defines "db' \<equiv> upd_res r (Resource_remove_host h) (upd_host h (Host_remove_resource r) db)"
  shows "db_inv db'"
    "abs_db db' = spec_remove (res_key (resOf db r)) (host_ip (hostOf db h)) (abs_db db)"
proof -
  have live: "host_mem db h \<noteq> None" "res_mem db r \<noteq> None"
    using assms db_inv_host db_inv_res by blast+
  have hOf: "hostOf db' p = (if p = h then Host_remove_resource r (hostOf db h) else hostOf db p)" for p
    using live by (simp add: db'_def hostOf_upd_host)
  have rOf: "resOf db' q = (if q = r then Resource_remove_host h (resOf db r) else resOf db q)" for q
    using live by (simp add: db'_def resOf_upd_res)
  have sel: "my_host db' = my_host db" "hosts db' = hosts db" "resources db' = resources db"
      "next_host db' = next_host db" "next_res db' = next_res db"
      "host_mem db' p = None \<longleftrightarrow> host_mem db p = None"
      "res_mem db' q = None \<longleftrightarrow> res_mem db q = None" for p q
    by (simp_all add: db'_def)
  have sh: "same_shape db db'"
    using db_inv_missed [OF assms(1)] unfolding same_shape_def sel hOf rOf by simp
  have poss: "set (possesed_resources (hostOf db' p)) \<subseteq> set (resources db)"
    if "p \<in> set (hosts db)" for p
    using db_inv_possesed [OF assms(1) that] by (auto simp: hOf split: if_splits)
  have bk: "set (hosts_in_possession (resOf db' q)) \<subseteq> set (hosts db)"
    if "q \<in> set (resources db)" for q
    using db_inv_in_possession [OF assms(1) that] by (auto simp: rOf split: if_splits)
  have links: "p \<in> set (hosts_in_possession (resOf db' q))"
    if "p \<in> set (hosts db)" "q \<in> set (possesed_resources (hostOf db' p))" for p q
    using that db_inv_back_link [OF assms(1)] by (auto simp: hOf rOf split: if_splits)
  have rev: "q \<in> set (possesed_resources (hostOf db' p))"
    if "q \<in> set (resources db)" "\<not> invalidated (resOf db' q)"
      "p \<in> set (hosts_in_possession (resOf db' q))" for p q
    using that assms(1) unfolding db_inv_def db_links_ok_def
    by (auto simp: hOf rOf split: if_splits)
  note main = same_shape_inv [OF assms(1) sh poss bk links rev]
  show "db_inv db'" by (rule main)
  have "q \<in> set (possesed_resources (hostOf db' p)) \<longleftrightarrow>
      q \<in> set (possesed_resources (hostOf db p)) \<and> \<not> (p = h \<and> q = r)" for p q
    by (auto simp: hOf)
  note poss_iff = this
  have "owners db' = {(host_ip (hostOf db p), res_key (resOf db r)) | p r.
      p \<in> set (hosts db) \<and> r \<in> set (possesed_resources (hostOf db' p))}"
    by (rule owners_same_shape [OF assms(1) sh]) (rule poss)
  then have "owners db' = owners db - {(host_ip (hostOf db h), res_key (resOf db r))}"
    unfolding poss_iff owners_def [of db]
    using link_unique [OF assms(1) _ _ assms(2,3)] by fastforce
  moreover have "revoked_files db' = revoked_files db"
    by (rule revoked_same_shape [OF sh]) (simp add: rOf)
  ultimately show "abs_db db' =
      spec_remove (res_key (resOf db r)) (host_ip (hostOf db h)) (abs_db db)"
    using main by (simp add: abs_db_def spec_remove_def)
qed

text \<open>A resource marked as revoked.\<close>

lemma invalidate_correct:
  assumes "db_inv db" "r \<in> set (resources db)"
  defines "db' \<equiv> upd_res r (\<lambda>x. x\<lparr>invalidated := True\<rparr>) db"
  shows "db_inv db'" "invalidated (resOf db' r)" "hosts_in_possession (resOf db' r) = hosts_in_possession (resOf db r)"
    "abs_db db' = (abs_db db)\<lparr>reg_revoked := insert (res_key (resOf db r)) (revoked_files db)\<rparr>"
proof -
  have live: "res_mem db r \<noteq> None" using assms db_inv_res by blast
  have rOf: "resOf db' q = (if q = r then resOf db r\<lparr>invalidated := True\<rparr> else resOf db q)" for q
    using live by (simp add: db'_def resOf_upd_res)
  have hOf: "hostOf db' = hostOf db" by (simp add: db'_def)
  have sel: "my_host db' = my_host db" "hosts db' = hosts db" "resources db' = resources db"
      "next_host db' = next_host db" "next_res db' = next_res db" "host_mem db' = host_mem db"
      "res_mem db' q = None \<longleftrightarrow> res_mem db q = None" for q
    by (simp_all add: db'_def)
  have sh: "same_shape db db'"
    using db_inv_missed [OF assms(1)] unfolding same_shape_def sel hOf rOf by simp
  have main: "db_inv db'" "peers db' = peers db" "files db' = files db" "local_ip db' = local_ip db"
    using assms(1) db_inv_possesed db_inv_in_possession db_inv_back_link
    by (intro same_shape_inv [OF assms(1) sh];
        auto simp: hOf rOf db_inv_def db_links_ok_def split: if_splits; blast)+
  have "owners db' = owners db"
    unfolding owners_def sel hOf rOf by auto
  moreover have "revoked_files db' = insert (res_key (resOf db r)) (revoked_files db)"
    using assms(2) unfolding revoked_files_def sel rOf by auto
  ultimately show "abs_db db' =
      (abs_db db)\<lparr>reg_revoked := insert (res_key (resOf db r)) (revoked_files db)\<rparr>"
    using main by (simp add: abs_db_def)
  show "db_inv db'" by (fact main)
  show "invalidated (resOf db' r)"
    "hosts_in_possession (resOf db' r) = hosts_in_possession (resOf db r)" by (simp_all add: rOf)
qed

text \<open>One direction of a link dropped, for a revoked resource.\<close>

lemma revoke_step_correct:
  assumes "db_inv db" "h \<in> set (hosts db)" "r \<in> set (resources db)" "invalidated (resOf db r)"
  shows "\<exists>db'. revoke_step r h db = Inr db' \<and> db_inv db' \<and> hosts db' = hosts db \<and>
    resources db' = resources db \<and> resOf db' = resOf db \<and>
    (\<forall>p. host_ip (hostOf db' p) = host_ip (hostOf db p)) \<and>
    abs_db db' = spec_remove (res_key (resOf db r)) (host_ip (hostOf db h)) (abs_db db)"
proof -
  define db' where "db' = upd_host h (Host_remove_resource r) db"
  have live: "host_mem db h \<noteq> None" using assms db_inv_host by blast
  have hOf: "hostOf db' p = (if p = h then Host_remove_resource r (hostOf db h) else hostOf db p)" for p
    using live by (simp add: db'_def hostOf_upd_host)
  have sel: "my_host db' = my_host db" "hosts db' = hosts db" "resources db' = resources db"
      "next_host db' = next_host db" "next_res db' = next_res db" "res_mem db' = res_mem db"
      "resOf db' = resOf db" "host_mem db' p = None \<longleftrightarrow> host_mem db p = None" for p
    by (simp_all add: db'_def)
  have sh: "same_shape db db'"
    using db_inv_missed [OF assms(1)] unfolding same_shape_def sel hOf by simp
  have poss: "set (possesed_resources (hostOf db' p)) \<subseteq> set (resources db)"
    if "p \<in> set (hosts db)" for p
    using db_inv_possesed [OF assms(1) that] by (auto simp: hOf split: if_splits)
  have bk: "set (hosts_in_possession (resOf db' q)) \<subseteq> set (hosts db)"
    if "q \<in> set (resources db)" for q
    using db_inv_in_possession [OF assms(1) that] by (auto simp: sel)
  have links: "p \<in> set (hosts_in_possession (resOf db' q))"
    if "p \<in> set (hosts db)" "q \<in> set (possesed_resources (hostOf db' p))" for p q
    using that db_inv_back_link [OF assms(1)] by (auto simp: hOf sel split: if_splits)
  have rev: "q \<in> set (possesed_resources (hostOf db' p))"
    if "q \<in> set (resources db)" "\<not> invalidated (resOf db' q)"
      "p \<in> set (hosts_in_possession (resOf db' q))" for p q
    using that assms(1,4) unfolding db_inv_def db_links_ok_def
    by (auto simp: hOf sel split: if_splits)
  note main = same_shape_inv [OF assms(1) sh poss bk links rev]
  have "q \<in> set (possesed_resources (hostOf db' p)) \<longleftrightarrow>
      q \<in> set (possesed_resources (hostOf db p)) \<and> \<not> (p = h \<and> q = r)" for p q
    by (auto simp: hOf)
  note poss_iff = this
  have "owners db' = {(host_ip (hostOf db p), res_key (resOf db r)) | p r.
      p \<in> set (hosts db) \<and> r \<in> set (possesed_resources (hostOf db' p))}"
    by (rule owners_same_shape [OF assms(1) sh]) (rule poss)
  then have "owners db' = owners db - {(host_ip (hostOf db h), res_key (resOf db r))}"
    unfolding poss_iff owners_def [of db]
    using link_unique [OF assms(1) _ _ assms(2,3)] by fastforce
  moreover have "revoked_files db' = revoked_files db"
    by (rule revoked_same_shape [OF sh]) (simp add: sel)
  ultimately have "abs_db db' =
      spec_remove (res_key (resOf db r)) (host_ip (hostOf db h)) (abs_db db)"
    using main by (simp add: abs_db_def spec_remove_def)
  moreover have "revoke_step r h db = Inr db'"
    by (simp add: revoke_step_def deref_host_ok live db'_def)
  ultimately show ?thesis using main(1) sel by (auto simp: hOf)
qed

lemma revoke_loop_correct:
  assumes "db_inv db" "set hs \<subseteq> set (hosts db)" "r \<in> set (resources db)" "invalidated (resOf db r)"
  shows "\<exists>db'. foldE (revoke_step r) hs db = Inr db' \<and> db_inv db' \<and>
    abs_db db' = (abs_db db)\<lparr>reg_owners :=
      owners db - (\<lambda>h. (host_ip (hostOf db h), res_key (resOf db r))) ` set hs\<rparr>"
  using assms
proof (induction hs arbitrary: db)
  case Nil
  then show ?case by (simp add: abs_db_def)
next
  case (Cons h hs)
  from Cons.prems obtain db1 where db1: "revoke_step r h db = Inr db1" "db_inv db1"
      "hosts db1 = hosts db" "resources db1 = resources db" "resOf db1 = resOf db"
      "\<forall>p. host_ip (hostOf db1 p) = host_ip (hostOf db p)"
      "abs_db db1 = spec_remove (res_key (resOf db r)) (host_ip (hostOf db h)) (abs_db db)"
    using revoke_step_correct [of db h r] by auto
  from db1(7) have own: "owners db1 = owners db - {(host_ip (hostOf db h), res_key (resOf db r))}"
    by (simp add: abs_db_def spec_remove_def)
  from Cons.IH [of db1] Cons.prems db1 obtain db2 where db2: "foldE (revoke_step r) hs db1 = Inr db2"
      "db_inv db2" "abs_db db2 = (abs_db db1)\<lparr>reg_owners := owners db1 -
        (\<lambda>h. (host_ip (hostOf db1 h), res_key (resOf db1 r))) ` set hs\<rparr>"
    by auto
  have "owners db1 - (\<lambda>h. (host_ip (hostOf db1 h), res_key (resOf db1 r))) ` set hs =
      owners db - (\<lambda>h. (host_ip (hostOf db h), res_key (resOf db r))) ` set (h # hs)"
    unfolding own db1(5) using db1(6) by auto
  then have "abs_db db2 = (abs_db db)\<lparr>reg_owners :=
      owners db - (\<lambda>h. (host_ip (hostOf db h), res_key (resOf db r))) ` set (h # hs)\<rparr>"
    unfolding db2(3) db1(7) spec_remove_def by simp
  with db1(1) db2(1,2) show ?case by simp
qed

section \<open>Growth\<close>

text \<open>Objects are only added, and keep their identity: pointers held by clients stay valid.\<close>

definition db_extends :: "'ip database \<Rightarrow> 'ip database \<Rightarrow> bool" where
  "db_extends db db' \<longleftrightarrow>
     set (hosts db) \<subseteq> set (hosts db') \<and> set (resources db) \<subseteq> set (resources db') \<and>
     my_host db' = my_host db \<and>
     (\<forall>p \<in> set (hosts db). host_ip (hostOf db' p) = host_ip (hostOf db p)) \<and>
     (\<forall>r \<in> set (resources db). res_key (resOf db' r) = res_key (resOf db r))"

lemma db_extends_refl: "db_extends db db"
  by (simp add: db_extends_def)

lemma db_extends_trans: "db_extends a b \<Longrightarrow> db_extends b c \<Longrightarrow> db_extends a c"
  unfolding db_extends_def by (metis subset_iff)

lemma emplace_resource_extends:
  "db_inv db \<Longrightarrow> emplace_resource res db = (r, db') \<Longrightarrow> db_extends db db'"
  using db_inv_fresh(2) [of db]
  by (auto simp: emplace_resource_def Let_def db_extends_def hostOf_def resOf_def)

lemma emplace_host_extends:
  "db_inv db \<Longrightarrow> emplace_host ip db = (p, db') \<Longrightarrow> db_extends db db'"
  using db_inv_fresh(1) [of db]
  by (auto simp: emplace_host_def Let_def db_extends_def hostOf_def resOf_def)

lemma push_links_extends:
  assumes "db_inv db" "h \<in> set (hosts db)" "r \<in> set (resources db)"
  shows "db_extends db (push_links h r db)"
  using db_inv_host [OF assms(1,2)] db_inv_res [OF assms(1,3)]
  by (simp add: db_extends_def push_links_def hostOf_upd_host resOf_upd_res)

section \<open>The operations\<close>

lemma find_resource_cases:
  assumes "db_inv db"
  obtains (found) r where "find_resource db res = Inr (Some r)" "r \<in> set (resources db)"
      "res_key (resOf db r) = res_key res" "res_key res \<in> files db"
  | (missing) "find_resource db res = Inr None" "res_key res \<notin> files db"
proof (cases "find (\<lambda>r. res_key (resOf db r) = res_key res) (resources db)")
  case None
  then have "res_key res \<notin> files db" by (auto simp: files_def find_None_iff)
  with None show thesis by (intro missing) (simp_all add: find_resource_ok assms)
next
  case (Some r)
  from find_Some_mem [OF this] have "r \<in> set (resources db)" "res_key (resOf db r) = res_key res"
    by simp_all
  moreover from this have "res_key res \<in> files db" by (force simp: files_def)
  ultimately show thesis using Some by (intro found) (simp_all add: find_resource_ok assms)
qed

lemma find_host_cases:
  assumes "db_inv db"
  obtains (found) p where "find_host db ip = Inr (Some p)" "p \<in> set (hosts db)"
      "host_ip (hostOf db p) = ip" "ip \<in> peers db"
  | (missing) "find_host db ip = Inr None" "ip \<notin> peers db"
proof (cases "find (\<lambda>p. host_ip (hostOf db p) = ip) (hosts db)")
  case None
  then have "ip \<notin> peers db" by (auto simp: peers_def find_None_iff)
  with None show thesis by (intro missing) (simp_all add: find_host_ok assms)
next
  case (Some p)
  from find_Some_mem [OF this] have "p \<in> set (hosts db)" "host_ip (hostOf db p) = ip"
    by simp_all
  moreover from this have "ip \<in> peers db" by (force simp: peers_def)
  ultimately show thesis using Some by (intro found) (simp_all add: find_host_ok assms)
qed

lemma owners_files: "db_inv db \<Longrightarrow> (ip, k) \<in> owners db \<Longrightarrow> k \<in> files db \<and> ip \<in> peers db"
  unfolding owners_def files_def peers_def using db_inv_possesed by fastforce

lemma owners_iff:
  assumes "db_inv db" "p \<in> set (hosts db)"
  shows "(host_ip (hostOf db p), k) \<in> owners db \<longleftrightarrow>
    (\<exists>r \<in> set (possesed_resources (hostOf db p)). res_key (resOf db r) = k)"
proof
  assume "(host_ip (hostOf db p), k) \<in> owners db"
  then obtain q r where q: "q \<in> set (hosts db)" "host_ip (hostOf db q) = host_ip (hostOf db p)"
      and r: "r \<in> set (possesed_resources (hostOf db q))" "res_key (resOf db r) = k"
    unfolding owners_def by auto
  from assms q have "q = p" using db_inv_ip_unique by metis
  with r show "\<exists>r \<in> set (possesed_resources (hostOf db p)). res_key (resOf db r) = k" by blast
qed (use assms(2) in \<open>force simp: owners_def\<close>)

text \<open>The two searches of \<open>add_file_internal\<close> with their insertions.\<close>

lemma ensure_resource:
  assumes "db_inv db"
  obtains o1 r db1 where "find_resource db res = Inr o1"
    "(case o1 of Some r \<Rightarrow> (r, db) | None \<Rightarrow> emplace_resource res db) = (r, db1)"
    "db_inv db1" "r \<in> set (resources db1)" "res_key (resOf db1 r) = res_key res"
    "hosts db1 = hosts db" "hostOf db1 = hostOf db" "db_extends db db1"
    "abs_db db1 = (abs_db db)\<lparr>reg_files := insert (res_key res) (files db)\<rparr>"
  using assms
proof (cases rule: find_resource_cases [of db res])
  case (found r)
  with assms show thesis
    by (intro that [of "Some r" r db]) (simp_all add: abs_db_def insert_absorb db_extends_refl)
next
  case missing
  obtain r db1 where e: "emplace_resource res db = (r, db1)" by fastforce
  from missing emplace_resource_correct [OF assms missing(2) e]
    emplace_resource_extends [OF assms e] e show thesis
    by (intro that [of None r db1]) simp_all
qed

lemma ensure_host:
  assumes "db_inv db"
  obtains p db1 where
    "(case find (\<lambda>p. host_ip (hostOf db p) = ip) (hosts db) of
        Some p \<Rightarrow> (p, db) | None \<Rightarrow> emplace_host ip db) = (p, db1)"
    "db_inv db1" "p \<in> set (hosts db1)" "host_ip (hostOf db1 p) = ip"
    "resources db1 = resources db" "resOf db1 = resOf db" "db_extends db db1"
    "abs_db db1 = (abs_db db)\<lparr>reg_peers := insert ip (peers db)\<rparr>"
  using assms
proof (cases rule: find_host_cases [of db ip])
  case (found p)
  with assms show thesis
    by (intro that [of p db]) (simp_all add: find_host_ok abs_db_def insert_absorb db_extends_refl)
next
  case missing
  obtain p db1 where e: "emplace_host ip db = (p, db1)" by fastforce
  from missing assms emplace_host_correct [OF assms missing(2) e]
    emplace_host_extends [OF assms e] e show thesis
    by (intro that [of p db1]) (simp_all add: find_host_ok)
qed

lemma add_file_internal_correct:
  assumes "db_inv db"
  shows "\<exists>db'. add_file_internal res ip db = Inr db' \<and> db_inv db' \<and>
    db_extends db db' \<and> abs_db db' = spec_add (res_key res) ip (abs_db db)"
proof -
  obtain o1 r db1 where 1:
    "find_resource db res = Inr o1"
    "(case o1 of Some r \<Rightarrow> (r, db) | None \<Rightarrow> emplace_resource res db) = (r, db1)"
    "db_inv db1" "r \<in> set (resources db1)" "res_key (resOf db1 r) = res_key res"
    "hosts db1 = hosts db" "hostOf db1 = hostOf db" "db_extends db db1"
    "abs_db db1 = (abs_db db)\<lparr>reg_files := insert (res_key res) (files db)\<rparr>"
    by (rule ensure_resource [OF assms, of res]) (rule that; assumption)
  obtain p db2 where 2:
    "(case find (\<lambda>p. host_ip (hostOf db1 p) = ip) (hosts db1) of
        Some p \<Rightarrow> (p, db1) | None \<Rightarrow> emplace_host ip db1) = (p, db2)"
    "db_inv db2" "p \<in> set (hosts db2)" "host_ip (hostOf db2 p) = ip"
    "resources db2 = resources db1" "resOf db2 = resOf db1" "db_extends db1 db2"
    "abs_db db2 = (abs_db db1)\<lparr>reg_peers := insert ip (peers db1)\<rparr>"
    by (rule ensure_host [OF 1(3), of ip]) (rule that; assumption)
  have fh: "find_host db ip = Inr (find (\<lambda>p. host_ip (hostOf db1 p) = ip) (hosts db1))"
    by (simp add: find_host_ok assms 1(6,7))
  have res: "add_file_internal res ip db = Inr (push_links p r db2)"
    unfolding add_file_internal_def 1(1) fh bindE_simps Let_def
    by (simp add: 1(2) 2(1))
  from 2 1(4) have r: "r \<in> set (resources db2)" by simp
  note push = push_links_correct [OF 2(2,3) r]
  have same: "peers db1 = peers db" "owners db2 = owners db"
    using 1(9) 2(8) by (auto simp: abs_db_def)
  have "abs_db (push_links p r db2) = spec_add (res_key res) ip (abs_db db)"
    unfolding push(2) 2(4,6,8) 1(5,9) same by (simp add: spec_add_def abs_db_def)
  moreover have "db_extends db (push_links p r db2)"
    using 1(8) 2(7) push_links_extends [OF 2(2,3) r] db_extends_trans by blast
  ultimately show ?thesis using res push(1) by blast
qed

lemma owner_back_link:
  assumes "db_inv db" "r \<in> set (resources db)" "(ip, res_key (resOf db r)) \<in> owners db"
  shows "\<exists>h \<in> set (hosts_in_possession (resOf db r)). host_ip (hostOf db h) = ip"
proof -
  from assms(3) obtain p q where pq: "p \<in> set (hosts db)" "host_ip (hostOf db p) = ip"
    "q \<in> set (possesed_resources (hostOf db p))" "res_key (resOf db q) = res_key (resOf db r)"
    unfolding owners_def by auto
  with assms(1,2) have "q = r" using db_inv_key_unique db_inv_possesed by metis
  with pq assms(1) show ?thesis using db_inv_back_link by metis
qed

lemma remove_file_correct:
  assumes "db_inv db"
  shows "\<exists>b db'. remove_file res ip db = Inr (b, db') \<and> db_inv db' \<and>
    abs_db db' = spec_remove (res_key res) ip (abs_db db) \<and>
    (res_key res \<notin> revoked_files db \<longrightarrow> b = ((ip, res_key res) \<in> owners db))"
  using assms
proof (cases rule: find_resource_cases [of db res])
  case missing
  have "(ip, res_key res) \<notin> owners db"
    using missing(2) owners_files [OF assms] by blast
  with missing(1) assms show ?thesis
    by (auto simp: remove_file_def spec_remove_def abs_db_def)
next
  case (found r)
  let ?hs = "hosts_in_possession (resOf db r)"
  let ?p = "\<lambda>h. host_ip (hostOf db h) = ip"
  have hs: "h \<in> set (hosts db)" if "h \<in> set ?hs" for h
    using db_inv_in_possession [OF assms found(2) that] .
  have search: "find_ifE (\<lambda>it. bindE (deref_host db it) (\<lambda>h. Inr (host_ip h = ip))) ?hs =
      Inr (find ?p ?hs)"
    by (rule find_ifE_Inr) (simp add: deref_host_ok db_inv_host [OF assms] hs)
  note deref = deref_res_ok [OF db_inv_res [OF assms found(2)]]
  have owner_link: "(ip, res_key res) \<in> owners db \<Longrightarrow> \<exists>h \<in> set ?hs. ?p h"
    using owner_back_link [OF assms found(2), of ip] found(3) by simp
  show ?thesis
  proof (cases "find ?p ?hs")
    case None
    with owner_link have "(ip, res_key res) \<notin> owners db" by (auto simp: find_None_iff)
    with None found(1) deref search assms show ?thesis
      by (auto simp: remove_file_def spec_remove_def abs_db_def)
  next
    case (Some h)
    have h: "h \<in> set ?hs" "?p h" using find_Some_mem [OF Some] by simp_all
    let ?db = "upd_res r (Resource_remove_host h) (upd_host h (Host_remove_resource r) db)"
    have eq: "remove_file res ip db = Inr (True, ?db)"
      by (simp add: remove_file_def found(1) deref search Some)
    have "(ip, res_key res) \<in> owners db" if "res_key res \<notin> revoked_files db"
    proof -
      from that found(2,3) have "\<not> invalidated (resOf db r)"
        unfolding revoked_files_def by force
      then have "r \<in> set (possesed_resources (hostOf db h))"
        using assms found(2) h(1) unfolding db_inv_def db_links_ok_def by blast
      then show ?thesis using hs [OF h(1)] h(2) found(3) unfolding owners_def by force
    qed
    with eq drop_link_correct [OF assms hs [OF h(1)] found(2)] h(2) found(3)
    show ?thesis by auto
  qed
qed

lemma revoke_resource_correct:
  assumes "db_inv db"
  shows "\<exists>db'. revoke_resource res db = Inr db' \<and> db_inv db' \<and>
    abs_db db' = spec_revoke (res_key res) (abs_db db)"
  using assms
proof (cases rule: find_resource_cases [of db res])
  case missing
  have "{x \<in> owners db. snd x \<noteq> res_key res} = owners db"
    using missing(2) owners_files [OF assms] by fastforce
  with missing assms show ?thesis
    by (simp add: revoke_resource_def spec_revoke_def abs_db_def)
next
  case (found r)
  define db1 where "db1 = upd_res r (\<lambda>x. x\<lparr>invalidated := True\<rparr>) db"
  note inv = invalidate_correct [OF assms found(2), folded db1_def]
  have sel: "hosts db1 = hosts db" "resources db1 = resources db" "hostOf db1 = hostOf db"
    by (simp_all add: db1_def)
  have r1: "r \<in> set (resources db1)" by (simp add: sel found(2))
  have key: "res_key (resOf db1 r) = res_key res"
    using found(3) db_inv_res [OF assms found(2)] by (simp add: db1_def resOf_upd_res)
  let ?hs = "hosts_in_possession (resOf db1 r)"
  have "set ?hs \<subseteq> set (hosts db1)" using db_inv_in_possession [OF inv(1) r1] by blast
  from revoke_loop_correct [OF inv(1) this r1 inv(2)] obtain db2 where db2:
    "foldE (revoke_step r) ?hs db1 = Inr db2" "db_inv db2"
    "abs_db db2 = (abs_db db1)\<lparr>reg_owners :=
       owners db1 - (\<lambda>h. (host_ip (hostOf db1 h), res_key (resOf db1 r))) ` set ?hs\<rparr>"
    by blast
  have "owners db1 - (\<lambda>h. (host_ip (hostOf db1 h), res_key (resOf db1 r))) ` set ?hs =
      {x \<in> owners db1. snd x \<noteq> res_key res}"
    using key owner_back_link [OF inv(1) r1] by (auto simp: image_iff) metis
  moreover have "owners db1 = owners db" "files db1 = files db"
    "revoked_files db1 = insert (res_key res) (revoked_files db)"
    using inv(4) found(3) by (simp_all add: abs_db_def)
  ultimately have "abs_db db2 = spec_revoke (res_key res) (abs_db db)"
    unfolding db2(3) inv(4) using found(3,4) by (simp add: spec_revoke_def abs_db_def)
  moreover have "revoke_resource res db = Inr db2"
    using db2(1) deref_res_ok [OF db_inv_res [OF inv(1) r1]]
    by (simp add: revoke_resource_def found(1) db1_def [symmetric])
  ultimately show ?thesis using db2(2) by blast
qed

lemma update_resource_correct:
  assumes "db_inv db" "p \<in> set (hosts db)"
  shows "\<exists>db'. update_resource p res db = Inr db' \<and> db_inv db' \<and> db_extends db db' \<and>
    abs_db db' = spec_update (host_ip (hostOf db p)) {res_key res} (abs_db db)"
proof -
  let ?h = "hostOf db p"
  let ?q = "\<lambda>r. res_key res = res_key (resOf db r)"
  have cnt: "count_ifE (\<lambda>it. bindE (deref_res db it) (\<lambda>r. Inr (Resource_eq res r)))
      (possesed_resources ?h) = Inr (length (filter ?q (possesed_resources ?h)))"
    by (rule count_ifE_Inr)
      (simp add: deref_res_ok db_inv_res [OF assms(1)] db_inv_possesed [OF assms] Resource_eq_iff)
  have upd: "update_resource p res db =
      (if \<exists>r \<in> set (possesed_resources ?h). ?q r then Inr db
       else add_file_internal res (host_ip ?h) db)"
    using cnt by (simp add: update_resource_def deref_host_ok db_inv_host [OF assms] filter_empty_conv)
  show ?thesis
  proof (cases "\<exists>r \<in> set (possesed_resources ?h). ?q r")
    case True
    then have own: "(host_ip ?h, res_key res) \<in> owners db"
      using assms(2) unfolding owners_def by force
    then have "abs_db db = spec_update (host_ip ?h) {res_key res} (abs_db db)"
      using owners_files [OF assms(1) own]
      by (auto simp: spec_update_def abs_db_def insert_absorb)
    with True upd assms(1) show ?thesis by (auto simp: db_extends_refl)
  next
    case False
    have "spec_add (res_key res) (host_ip ?h) s = spec_update (host_ip ?h) {res_key res} s"
      for s :: "'a registry_state"
      by (simp add: spec_add_def spec_update_def)
    with False upd show ?thesis using add_file_internal_correct [OF assms(1), of res "host_ip ?h"]
      by simp
  qed
qed

lemma spec_update_union:
  "spec_update ip B (spec_update ip A s) = spec_update ip (A \<union> B) s"
  by (simp add: spec_update_def Un_assoc Sigma_Un_distrib2)

lemma update_resources_correct:
  assumes "db_inv db" "p \<in> set (hosts db)" "adv \<noteq> []"
  shows "\<exists>db'. foldE (update_resource p) adv db = Inr db' \<and> db_inv db' \<and> db_extends db db' \<and>
    abs_db db' = spec_update (host_ip (hostOf db p)) (res_key ` set adv) (abs_db db)"
  using assms
proof (induction adv arbitrary: db)
  case (Cons res adv)
  from update_resource_correct [OF Cons.prems(1,2)] obtain db1 where db1:
    "update_resource p res db = Inr db1" "db_inv db1" "db_extends db db1"
    "abs_db db1 = spec_update (host_ip (hostOf db p)) {res_key res} (abs_db db)" by blast
  from db1(3) Cons.prems(2) have p: "p \<in> set (hosts db1)"
    "host_ip (hostOf db1 p) = host_ip (hostOf db p)"
    by (auto simp: db_extends_def)
  show ?case
  proof (cases "adv = []")
    case True
    with db1 show ?thesis by simp
  next
    case False
    from Cons.IH [OF db1(2) p(1) False] obtain db2 where
      "foldE (update_resource p) adv db1 = Inr db2" "db_inv db2" "db_extends db1 db2"
      "abs_db db2 = spec_update (host_ip (hostOf db1 p)) (res_key ` set adv) (abs_db db1)" by blast
    with db1 p(2) show ?thesis
      using db_extends_trans by (auto simp: spec_update_union)
  qed
qed simp

lemma update_host_correct:
  assumes "db_inv db"
  shows "\<exists>db'. update_host ip adv db = Inr db' \<and> db_inv db' \<and> db_extends db db' \<and>
    abs_db db' = spec_update ip (res_key ` set adv) (abs_db db)"
proof -
  obtain p db1 where 1:
    "(case find (\<lambda>p. host_ip (hostOf db p) = ip) (hosts db) of
        Some p \<Rightarrow> (p, db) | None \<Rightarrow> emplace_host ip db) = (p, db1)"
    "db_inv db1" "p \<in> set (hosts db1)" "host_ip (hostOf db1 p) = ip"
    "resources db1 = resources db" "resOf db1 = resOf db" "db_extends db db1"
    "abs_db db1 = (abs_db db)\<lparr>reg_peers := insert ip (peers db)\<rparr>"
    by (rule ensure_host [OF assms, of ip]) (rule that; assumption)
  define db2 where "db2 = upd_host p (\<lambda>h. h\<lparr>no_of_missed_updates := 0\<rparr>) db1"
  have live: "host_mem db1 p \<noteq> None" using db_inv_host [OF 1(2,3)] .
  have "hostOf db1 p\<lparr>no_of_missed_updates := 0\<rparr> = hostOf db1 p"
    using db_inv_missed [OF 1(2,3)] by (cases "hostOf db1 p") simp
  with live have "db2 = db1"
    by (simp add: db2_def upd_host_def hostOf_def) (auto simp: fun_upd_idem)
  then have eq: "update_host ip adv db = foldE (update_resource p) adv db1"
    by (simp add: update_host_def find_host_ok [OF assms] 1(1) Let_def db2_def)
  show ?thesis
  proof (cases "adv = []")
    case True
    then show ?thesis using eq 1(2,7,8) by (simp add: spec_update_def abs_db_def)
  next
    case False
    from update_resources_correct [OF 1(2,3) False] obtain db3 where 3:
      "foldE (update_resource p) adv db1 = Inr db3" "db_inv db3" "db_extends db1 db3"
      "abs_db db3 = spec_update ip (res_key ` set adv) (abs_db db1)" using 1(4) by auto
    have "abs_db db3 = spec_update ip (res_key ` set adv) (abs_db db)"
      unfolding 3(4) 1(8) by (simp add: spec_update_def abs_db_def)
    then show ?thesis using eq 3(1,2) db_extends_trans [OF 1(7) 3(3)] by simp
  qed
qed

lemma deref_my_host: "db_inv db \<Longrightarrow> deref_host db (my_host db) = Inr (hostOf db (my_host db))"
  by (rule deref_host_ok) (rule db_inv_host [OF _ db_inv_my_host])

lemma check_for_gone_hosts_noop:
  assumes "db_inv db" "left_margin \<noteq> 0"
  shows "check_for_gone_hosts pinned left_margin db = Inr db"
proof -
  have "foldE (check_gone_step pinned left_margin) ps db = Inr db" if "set ps \<subseteq> set (hosts db)" for ps
    using that
  proof (induction ps)
    case (Cons p ps)
    then have p: "p \<in> set (hosts db)" by simp
    have "check_gone_step pinned left_margin p db = Inr db"
      using assms(2) db_inv_missed [OF assms(1) p]
      by (simp add: check_gone_step_def deref_host_ok db_inv_host [OF assms(1) p])
    with Cons show ?case by simp
  qed simp
  then show ?thesis by (simp add: check_for_gone_hosts_def)
qed

lemma has_file_correct:
  assumes "db_inv db"
  shows "has_file db res = Inr ((local_ip db, res_key res) \<in> owners db)"
proof -
  let ?me = "hostOf db (my_host db)"
  let ?q = "\<lambda>r. res_key (resOf db r) = res_key res"
  note me = db_inv_my_host [OF assms]
  have "find_ifE (\<lambda>it. bindE (deref_res db it) (\<lambda>r. Inr (Resource_eq r res)))
      (possesed_resources ?me) = Inr (find ?q (possesed_resources ?me))"
    by (rule find_ifE_Inr)
      (simp add: deref_res_ok db_inv_res [OF assms] db_inv_possesed [OF assms me] Resource_eq_iff)
  moreover have "find_host db (host_ip ?me) = Inr (Some (my_host db))"
    by (rule find_host_Some [OF assms me])
  ultimately have "has_file db res = Inr (find ?q (possesed_resources ?me) \<noteq> None)"
    by (simp add: has_file_def deref_my_host assms)
  moreover have "find ?q (possesed_resources ?me) \<noteq> None \<longleftrightarrow>
      (local_ip db, res_key res) \<in> owners db"
    unfolding local_ip_def owners_iff [OF assms me] by (auto simp: find_None_iff)
  ultimately show ?thesis by simp
qed

lemma generate_database_headers_eq:
  assumes "db_inv db"
  shows "generate_database_headers e db =
    mapE (generate_resource_header e)
      (map (resOf db) (possesed_resources (hostOf db (my_host db))))"
proof -
  let ?me = "hostOf db (my_host db)"
  note me = db_inv_my_host [OF assms]
  have "mapE (\<lambda>it. bindE (deref_res db it) (generate_resource_header e)) rs =
      mapE (generate_resource_header e) (map (resOf db) rs)" if "set rs \<subseteq> set (resources db)" for rs
    using that by (induction rs) (simp_all add: deref_res_ok db_inv_res [OF assms])
  moreover have "set (possesed_resources ?me) \<subseteq> set (resources db)"
    using db_inv_possesed [OF assms me] by blast
  moreover have "find_host db (host_ip ?me) = Inr (Some (my_host db))"
    by (rule find_host_Some [OF assms me])
  ultimately show ?thesis
    by (simp add: generate_database_headers_def deref_my_host assms)
qed

lemma Resource_Database_new_correct:
  "db_inv (Resource_Database_new fresh ip)"
  "abs_db (Resource_Database_new fresh ip) =
     \<lparr>reg_owners = {}, reg_files = {}, reg_revoked = {}, reg_peers = {ip}, reg_local = ip\<rparr>"
  by (simp_all add: Resource_Database_new_def db_inv_defs abs_db_defs hostOf_def)

section \<open>The contract\<close>

lemma exec_call_correct:
  assumes "db_inv db"
  shows "\<exists>db'. exec_call c db = Inr db' \<and> db_inv db' \<and> abs_db db' = spec_call c (abs_db db)"
proof -
  have me: "host_ip (hostOf db (my_host db)) = reg_local (abs_db db)"
    by (simp add: abs_db_def local_ip_def)
  show ?thesis
  proof (cases c)
    case (Add_File res ip)
    then show ?thesis using add_file_internal_correct [OF assms, of res ip]
      by (auto simp: add_file_def)
  next
    case (Add_File_Local res)
    then show ?thesis using add_file_internal_correct [OF assms, of res "reg_local (abs_db db)"]
      by (auto simp: add_file_def add_file_local_def deref_my_host assms me)
  next
    case (Remove_File res ip)
    then show ?thesis using remove_file_correct [OF assms, of res ip] by auto
  next
    case (Remove_File_Local res)
    then show ?thesis using remove_file_correct [OF assms, of res "reg_local (abs_db db)"]
      by (auto simp: remove_file_local_def deref_my_host assms me)
  next
    case (Update_Host ip adv)
    then show ?thesis using update_host_correct [OF assms, of ip adv] by auto
  next
    case (Revoke_Resource res)
    then show ?thesis using revoke_resource_correct [OF assms, of res] by simp
  next
    case (Check_For_Gone_Hosts pinned)
    then show ?thesis using check_for_gone_hosts_noop [OF assms, of LEFT_MARGIN pinned] assms
      by simp
  qed
qed

interpretation db: safe_component exec_call spec_call db_inv abs_db
  by unfold_locales (rule exec_call_correct)

interpretation db_files: observed_component exec_call spec_call db_inv abs_db
  "\<lambda>res db. has_file db res" "\<lambda>res reg. (reg_local reg, res_key res) \<in> reg_owners reg"
  by unfold_locales (simp add: has_file_correct abs_db_def)

section \<open>Properties\<close>

definition init_registry :: "'ip \<Rightarrow> 'ip registry_state" where
  "init_registry ip =
     \<lparr>reg_owners = {}, reg_files = {}, reg_revoked = {}, reg_peers = {ip}, reg_local = ip\<rparr>"

lemma reachable_database:
  obtains db where "foldE exec_call calls (Resource_Database_new fresh ip) = Inr db" "db_inv db"
    "abs_db db = fold spec_call calls (init_registry ip)"
  using db.run_refines [OF Resource_Database_new_correct(1), of calls fresh ip]
    Resource_Database_new_correct(2) [of fresh ip] by (auto simp: init_registry_def)

text \<open>C7: refinement and memory safety of the database. From the constructor on, whatever
  sequence of calls the other components make, no call dereferences a dead pointer or uses
  an invalid iterator, the representation invariant holds, and the contents are those the
  abstract relation of addresses and files gets from the same calls.\<close>

theorem database_refines_spec:
  "\<exists>db. foldE exec_call calls (Resource_Database_new fresh ip) = Inr db \<and> db_inv db \<and>
     abs_db db = fold spec_call calls
       \<lparr>reg_owners = {}, reg_files = {}, reg_revoked = {}, reg_peers = {ip}, reg_local = ip\<rparr>"
  by (rule reachable_database [of calls fresh ip]) (auto simp: init_registry_def)

text \<open>What \<open>has_file\<close> answers in any reachable state: whether the local address owns the file
  in the abstract relation.\<close>

lemma has_file_answers:
  assumes "foldE exec_call calls (Resource_Database_new fresh ip) = Inr db"
  shows "has_file db res =
    Inr ((reg_local (fold spec_call calls (init_registry ip)), res_key res)
           \<in> reg_owners (fold spec_call calls (init_registry ip)))"
  using db_files.query_after [OF Resource_Database_new_correct(1) assms, of res]
  by (simp add: Resource_Database_new_correct(2) init_registry_def)

text \<open>C22: revoking a file ends its sharing: afterwards no host owns it and it is marked as
  revoked if it was known, while the ownership of every other file is unchanged.\<close>

theorem revoke_ends_sharing:
  assumes "db_inv db"
  shows "\<exists>db'. revoke_resource res db = Inr db' \<and> db_inv db' \<and>
    owners db' = {(ip, k) \<in> owners db. k \<noteq> res_key res} \<and>
    revoked_files db' = revoked_files db \<union> ({res_key res} \<inter> files db) \<and>
    files db' = files db \<and> peers db' = peers db \<and> has_file db' res = Inr False"
proof -
  from revoke_resource_correct [OF assms, of res] obtain db' where db':
    "revoke_resource res db = Inr db'" "db_inv db'"
    "abs_db db' = spec_revoke (res_key res) (abs_db db)" by blast
  then have eqs: "owners db' = {x \<in> owners db. snd x \<noteq> res_key res}"
      "revoked_files db' = revoked_files db \<union> ({res_key res} \<inter> files db)"
      "files db' = files db" "peers db' = peers db"
    by (simp_all add: abs_db_def spec_revoke_def)
  then have "has_file db' res = Inr False" by (simp add: has_file_correct [OF db'(2)])
  with db'(1,2) eqs show ?thesis by auto
qed

theorem revoke_ends_sharing_witness:
  "\<exists>db db'. foldE exec_call [Add_File (Resource_new ''XD'' 0 ''./'') 8]
          (Resource_Database_new (\<lambda>_. 0) (7 :: nat)) = Inr db \<and> (8, (''XD'', 0)) \<in> owners db \<and>
     revoke_resource (Resource_new ''XD'' 0 ''./'') db = Inr db' \<and> owners db' = {} \<and>
     revoked_files db' = {(''XD'', 0)}"
proof -
  let ?r = "Resource_new ''XD'' 0 ''./''"
  obtain db where db: "foldE exec_call [Add_File ?r 8]
      (Resource_Database_new (\<lambda>_. 0) (7 :: nat)) = Inr db" "db_inv db"
    "abs_db db = fold spec_call [Add_File ?r 8] (init_registry 7)"
    by (rule reachable_database)
  from db(3) have abs: "owners db = {(8, (''XD'', 0))}" "files db = {(''XD'', 0)}"
      "revoked_files db = {}"
    by (simp_all add: abs_db_def spec_add_def init_registry_def res_key_def Resource_new_def)
  have "res_key ?r = (''XD'', 0)" by (simp add: res_key_def Resource_new_def)
  with abs db(1) revoke_ends_sharing [OF db(2), of ?r] show ?thesis by auto
qed

text \<open>C40: a revocation is not remembered when the file is added again, as the end of a download
  does: the local host owns (and so advertises) a file that stays marked as revoked.\<close>

theorem revoked_file_shared_again:
  assumes "db_inv db" "res_key res \<in> files db"
  shows "\<exists>db'. foldE exec_call [Revoke_Resource res, Add_File_Local res] db = Inr db' \<and>
    res_key res \<in> revoked_files db' \<and> has_file db' res = Inr True"
proof -
  from db.run_refines [OF assms(1), of "[Revoke_Resource res, Add_File_Local res]"]
  obtain db' where db': "foldE exec_call [Revoke_Resource res, Add_File_Local res] db = Inr db'"
    "db_inv db'" "abs_db db' =
       fold spec_call [Revoke_Resource res, Add_File_Local res] (abs_db db)" by blast
  then have "res_key res \<in> revoked_files db'" "(local_ip db', res_key res) \<in> owners db'"
    using assms(2) by (simp_all add: abs_db_def spec_add_def spec_revoke_def)
  with db'(1) has_file_correct [OF db'(2), of res] show ?thesis by metis
qed

theorem revoked_file_shared_again_witness:
  "\<exists>db db'. foldE exec_call [Add_File (Resource_new ''XD'' 0 ''./'') 8]
          (Resource_Database_new (\<lambda>_. 0) (7 :: nat)) = Inr db \<and>
     foldE exec_call [Revoke_Resource (Resource_new ''XD'' 0 ''./''),
                      Add_File_Local (Resource_new ''XD'' 0 ''./'')] db = Inr db' \<and>
     (''XD'', 0) \<in> revoked_files db' \<and> has_file db' (Resource_new ''XD'' 0 ''./'') = Inr True"
proof -
  let ?r = "Resource_new ''XD'' 0 ''./''"
  obtain db where db: "foldE exec_call [Add_File ?r 8]
      (Resource_Database_new (\<lambda>_. 0) (7 :: nat)) = Inr db" "db_inv db"
    "abs_db db = fold spec_call [Add_File ?r 8] (init_registry 7)"
    by (rule reachable_database)
  have key: "res_key ?r = (''XD'', 0)" by (simp add: res_key_def Resource_new_def)
  from db(3) have "res_key ?r \<in> files db"
    by (simp add: abs_db_def spec_add_def init_registry_def)
  from revoked_file_shared_again [OF db(2) this] db(1) key show ?thesis by metis
qed

text \<open>C39: no host is ever dropped. The counter of missed updates is never increased, so in every
  reachable state the check for hosts that left the network changes nothing, whatever
  positive margin it is called with.\<close>

theorem gone_hosts_never_dropped:
  assumes "foldE exec_call calls (Resource_Database_new fresh ip) = Inr db" "left_margin \<noteq> 0"
  shows "check_for_gone_hosts pinned left_margin db = Inr db"
proof -
  from assms(1) have "db_inv db"
    using reachable_database [of calls fresh ip] by (metis Inr_inject)
  then show ?thesis using assms(2) by (rule check_for_gone_hosts_noop)
qed

theorem gone_hosts_never_dropped_witness:
  "\<exists>db. foldE exec_call [Update_Host 8 []] (Resource_Database_new (\<lambda>_. 0) (7 :: nat)) = Inr db \<and>
     check_for_gone_hosts {} LEFT_MARGIN db = Inr db"
proof -
  obtain db where db: "foldE exec_call [Update_Host 8 []]
      (Resource_Database_new (\<lambda>_. 0) (7 :: nat)) = Inr db"
    by (rule reachable_database)
  then show ?thesis using gone_hosts_never_dropped [OF db, of LEFT_MARGIN "{}"] by simp
qed

end
