(* ===== verification/Download_Worker.thy ===== *)
theory Download_Worker
  imports Complete_Resource Database_Invariant
begin

text \<open>
  \<^verbatim>\<open>include/DownloadWorker.h\<close>, \<^verbatim>\<open>src/DownloadWorker.cpp\<close>: the thread that downloads segments
  from one host. This theory has the object's state with the position of its thread in
  \<open>init\<close>/\<open>worker\<close>, the segment request it sends and the methods other threads call on it;
  the steps of the thread are in \<open>Download_System\<close>. Connecting, writing and reading succeed or
  fail as the environment chooses; whether the socket is open is in \<open>Download_Teardown\<close>.
\<close>

section \<open>State\<close>

text \<open>
  Where the worker's thread stands. \<open>GetCheck\<close> and \<open>GetScan\<close> are the two critical
  sections of \<open>CompleteResource::get_segment\<close>, \<open>Waiting\<close> is its wait on the condition
  variable; \<open>Assigned\<close> is between the return of \<open>get_segment\<close> and the assignment of
  \<open>owned_segment_id\<close>; \<open>Failing\<close> is between the rethrow and \<open>closed = true\<close> in \<open>init\<close>.
\<close>

datatype thread_pc =
    Connecting
  | LoopHead
  | GetCheck
  | GetScan
  | Waiting
  | Assigned SegmentId
  | Downloading SegmentId
  | Storing SegmentId
  | Failing
  | Failed
  | Finished

record DownloadWorker =
  w_host :: hptr
  w_timeouted :: bool
  w_closed :: bool
  owned_segment_id :: SegmentId
  w_pc :: thread_pc

definition DownloadWorker_new :: "hptr \<Rightarrow> DownloadWorker" where
  "DownloadWorker_new host_c =
     \<lparr>w_host = host_c, w_timeouted = False, w_closed = False,
      owned_segment_id = NO_SEGMENT_ID, w_pc = Connecting\<rparr>"

section \<open>Methods\<close>

definition serialize_segment_request :: "endian \<Rightarrow> CompleteResource \<Rightarrow> SegmentId \<Rightarrow> Uint8 list result" where
  "serialize_segment_request e cr i =
     bindE (generate_resource_header e (cr_resource cr)) (\<lambda>resource_header.
       Inr ([REQ_SEGMENT] @ resource_header @ store_word e (hton e i)))"

text \<open>\<open>request_segment\<close>: the octets written to the socket, or \<open>None\<close>, the thrown \<open>system_error\<close>,
  when the write fails.\<close>

definition request_segment ::
    "bool \<Rightarrow> endian \<Rightarrow> CompleteResource \<Rightarrow> SegmentId \<Rightarrow> Uint8 list option result" where
  "request_segment sent e cr i =
     bindE (serialize_segment_request e cr i) (\<lambda>data. Inr (if sent then Some data else None))"

definition is_closed :: "DownloadWorker \<Rightarrow> bool" where
  "is_closed w = w_closed w"

definition is_unavailable :: "clock \<Rightarrow> (hptr \<Rightarrow> 'ip Host) \<Rightarrow> DownloadWorker \<Rightarrow> bool" where
  "is_unavailable now hs w = (w_closed w \<or> is_retarded now (hs (w_host w)))"

text \<open>\<open>close\<close>: the flag is set; what \<open>cancel\<close> does to the socket is in \<open>Download_Teardown\<close>.\<close>

definition close_worker :: "DownloadWorker \<Rightarrow> DownloadWorker" where
  "close_worker w = w\<lparr>w_closed := True\<rparr>"

text \<open>
  \<open>check_timeout\<close>, called by the controlling thread: a worker already marked is charged a
  timeout and its segment is released; every worker is then marked. The flag says
  whether a waiting thread is notified.
\<close>

definition check_timeout ::
    "clock \<Rightarrow> DownloadWorker \<Rightarrow> (hptr \<Rightarrow> 'ip Host) \<Rightarrow> CompleteResource \<Rightarrow>
     (bool \<times> DownloadWorker \<times> (hptr \<Rightarrow> 'ip Host) \<times> CompleteResource) result" where
  "check_timeout now w hs cr =
     (if w_timeouted w
      then bindE (unset_busy (owned_segment_id w) cr) (\<lambda>cr.
             Inr (True, w\<lparr>w_timeouted := True\<rparr>,
                  hs(w_host w := increase_timeout_counter now (hs (w_host w))), cr))
      else Inr (False, w\<lparr>w_timeouted := True\<rparr>, hs, cr))"

text \<open>\<open>notify_one\<close> wakes one waiting thread if there is one; \<open>k\<close> is the scheduler's choice.\<close>

definition wake :: "DownloadWorker \<Rightarrow> DownloadWorker" where
  "wake w = (if w_pc w = Waiting then w\<lparr>w_pc := GetCheck\<rparr> else w)"

definition notify_one :: "nat \<Rightarrow> DownloadWorker list \<Rightarrow> DownloadWorker list option" where
  "notify_one k ws =
     (if k < length ws \<and> w_pc (ws ! k) = Waiting then Some (ws[k := wake (ws ! k)])
      else if \<exists>w \<in> set ws. w_pc w = Waiting then None
      else Some ws)"

definition notify_all :: "DownloadWorker list \<Rightarrow> DownloadWorker list" where
  "notify_all ws = map wake ws"

section \<open>Lemmas\<close>

text \<open>The segment a thread is working on.\<close>

fun held :: "thread_pc \<Rightarrow> SegmentId option" where
  "held (Assigned i) = Some i"
| "held (Downloading i) = Some i"
| "held (Storing i) = Some i"
| "held _ = None"

lemma serialize_segment_request_eq:
  assumes "generate_resource_header e (cr_resource cr) = Inr hdr"
  shows "serialize_segment_request e cr i = Inr (REQ_SEGMENT # hdr @ store_word Big i)"
  by (simp add: serialize_segment_request_def assms store_hton)

lemma request_segment_sent:
  "request_segment True e cr i = Inr (Some req) \<longleftrightarrow> serialize_segment_request e cr i = Inr req"
  by (auto simp: request_segment_def bindE_Inr_iff)

text \<open>Notification changes nothing but where waiting threads stand.\<close>

definition woken :: "DownloadWorker \<Rightarrow> DownloadWorker \<Rightarrow> bool" where
  "woken w w' \<longleftrightarrow> w' = w \<or> w_pc w = Waiting \<and> w' = w\<lparr>w_pc := GetCheck\<rparr>"

lemma woken_wake: "woken w (wake w)"
  by (simp add: woken_def wake_def)

lemma woken_refl: "woken w w"
  by (simp add: woken_def)

lemma woken_held: "woken w w' \<Longrightarrow> held (w_pc w') = held (w_pc w)"
  by (auto simp: woken_def)

lemma woken_simps:
  "woken w w' \<Longrightarrow> owned_segment_id w' = owned_segment_id w"
  "woken w w' \<Longrightarrow> w_pc w' = Storing n \<longleftrightarrow> w_pc w = Storing n"
  "woken w w' \<Longrightarrow> w_pc w' = Downloading n \<longleftrightarrow> w_pc w = Downloading n"
  by (auto simp: woken_def)

lemma notify_one_woken:
  "notify_one k ws = Some ws' \<Longrightarrow> list_all2 woken ws ws'"
  by (auto simp: notify_one_def list_all2_conv_all_nth nth_list_update woken_wake woken_refl
      split: if_splits)

lemma notify_all_woken: "list_all2 woken ws (notify_all ws)"
  by (simp add: notify_all_def list_all2_conv_all_nth woken_wake)

end
