(* ===== verification/Download_System.thy ===== *)
theory Download_System
  imports Download_Worker
begin

text \<open>
  \<^verbatim>\<open>src/DownloadService.cpp\<close> and the thread of \<^verbatim>\<open>src/DownloadWorker.cpp\<close>: one download as a
  system of threads. The controlling thread creates a worker per host, waits for the
  completion of the resource in intervals of 300 ms and charges timeouts; each worker
  thread fetches segments; they share the \<open>CompleteResource\<close>. One step is one critical
  section or one call to the environment, so an execution is an interleaving of steps
  (\<open>fire\<close>); what is reachable under restrictions on the environment is \<open>run_under\<close>.
\<close>

section \<open>State\<close>

text \<open>
  The controlling thread: waiting in \<open>controll_workers\<close>, at worker \<open>j\<close> of
  \<open>check_workers_timeout\<close>, past \<open>store_file\<close>, or past the exception handler. In the
  last two the destructor closes and joins the workers.
\<close>

datatype ctl_pc = CtlWait | CtlCheck nat | CtlStored | CtlAborted

record 'ip dsys =
  ds_cr :: CompleteResource
  ds_hosts :: "hptr \<Rightarrow> 'ip Host"
  ds_workers :: "DownloadWorker list"
  ds_ctl :: ctl_pc
  ds_stored :: "Uint8 option list option"

datatype dl_event =
    Connected nat
  | Connect_Failed nat
  | Loop_Test nat
  | Get_Check nat
  | Get_Scan nat
  | Own nat
  | Receive nat "Uint8 list"
  | Receive_Failed nat "Uint8 list" nat
  | Set_Segment nat
  | Terminate nat
  | Spurious nat
  | Tick clock
  | Check_Worker clock nat
  | Close nat

section \<open>Creating the workers\<close>

datatype create_error = No_host_has_resource | No_host_available

definition create_workers ::
    "clock \<Rightarrow> 'ip database \<Rightarrow> rptr \<Rightarrow> (create_error + DownloadWorker list) result" where
  "create_workers now db r =
     bindE (deref_res db r) (\<lambda>resource.
       let hs = hosts_in_possession resource
       in if hs = [] then Inr (Inl No_host_has_resource)
          else bindE (mapE (deref_host db) hs) (\<lambda>objs.
            let ws = map DownloadWorker_new
                       (map fst (filter (\<lambda>(p, h). \<not> is_retarded now h) (zip hs objs)))
            in if ws = [] then Inr (Inl No_host_available) else Inr (Inr ws)))"

definition init_download :: "Resource \<Rightarrow> (hptr \<Rightarrow> 'ip Host) \<Rightarrow> DownloadWorker list \<Rightarrow> 'ip dsys" where
  "init_download resource hs ws =
     \<lparr>ds_cr = CompleteResource_new resource, ds_hosts = hs, ds_workers = ws,
      ds_ctl = CtlWait, ds_stored = None\<rparr>"

section \<open>Steps\<close>

definition at_pc :: "'ip dsys \<Rightarrow> nat \<Rightarrow> thread_pc \<Rightarrow> bool" where
  "at_pc s i p \<longleftrightarrow> i < length (ds_workers s) \<and> w_pc (ds_workers s ! i) = p"

definition upd_worker :: "nat \<Rightarrow> (DownloadWorker \<Rightarrow> DownloadWorker) \<Rightarrow> 'ip dsys \<Rightarrow> 'ip dsys" where
  "upd_worker i f s = s\<lparr>ds_workers := (ds_workers s)[i := f (ds_workers s ! i)]\<rparr>"

definition set_pc :: "nat \<Rightarrow> thread_pc \<Rightarrow> 'ip dsys \<Rightarrow> 'ip dsys" where
  "set_pc i p s = upd_worker i (\<lambda>w. w\<lparr>w_pc := p\<rparr>) s"

definition holding :: "'ip dsys \<Rightarrow> nat \<Rightarrow> SegmentId option" where
  "holding s i = (if i < length (ds_workers s) then held (w_pc (ds_workers s ! i)) else None)"

text \<open>The segment object the thread keeps on its stack.\<close>

definition segment_at :: "SegmentId \<Rightarrow> Segment" where
  "segment_at i = \<lparr>seg_id = i, seg_data = Some (unat i * SEGMENT_SIZE)\<rparr>"

text \<open>What \<open>store_resource\<close> writes: the first \<open>getSize()\<close> octets of the buffer.\<close>

definition file_contents :: "CompleteResource \<Rightarrow> Uint8 option list result" where
  "file_contents cr = mem_range (cr_data cr) 0 (unat (res_size (cr_resource cr)))"

definition all_workers_unavailable :: "clock \<Rightarrow> 'ip dsys \<Rightarrow> bool" where
  "all_workers_unavailable now s = list_all (is_unavailable now (ds_hosts s)) (ds_workers s)"

text \<open>\<open>get_segment\<close> under the lock, up to its return or its wait.\<close>

definition scan_step :: "nat \<Rightarrow> 'ip dsys \<Rightarrow> 'ip dsys result" where
  "scan_step i s =
     bindE (get_segment_scan (ds_cr s)) (\<lambda>(found, cr).
       case found of
         Some seg \<Rightarrow> Inr (set_pc i (if seg_id seg = NO_SEGMENT_ID then Finished
                                      else Assigned (seg_id seg)) (s\<lparr>ds_cr := cr\<rparr>))
       | None \<Rightarrow> Inr (set_pc i Waiting (s\<lparr>ds_cr := cr\<rparr>)))"

text \<open>\<open>receive_segment\<close> and \<open>timeouted = false\<close>.\<close>

definition receive_step :: "nat \<Rightarrow> SegmentId \<Rightarrow> Uint8 list \<Rightarrow> 'ip dsys \<Rightarrow> 'ip dsys result" where
  "receive_step i n bs s =
     bindE (write_data (segment_at n) bs (ds_cr s)) (\<lambda>cr.
       Inr (upd_worker i (\<lambda>w. w\<lparr>w_timeouted := False, w_pc := Storing n\<rparr>) (s\<lparr>ds_cr := cr\<rparr>)))"

text \<open>
  The handler of \<open>download\<close>: what arrived before the error stays in the buffer, the
  message is composed, the segment in \<open>owned_segment_id\<close> is released, and the exception
  propagates. The message adds the segment number to the address of a literal of 28
  characters, which points outside it when the number is larger.
\<close>

definition failure_message :: "SegmentId \<Rightarrow> string result" where
  "failure_message n =
     (let literal = ''Failed to download segment: ''
      in if unat n \<le> length literal then Inr (drop (unat n) literal) else Inl OutOfBounds)"

definition receive_failed_step ::
    "nat \<Rightarrow> SegmentId \<Rightarrow> Uint8 list \<Rightarrow> nat \<Rightarrow> 'ip dsys \<Rightarrow> 'ip dsys result option" where
  "receive_failed_step i n part k s =
     (case bindE (write_data (segment_at n) part (ds_cr s)) (\<lambda>cr.
            bindE (failure_message n) (\<lambda>_.
              unset_busy (owned_segment_id (ds_workers s ! i)) cr)) of
        Inl e \<Rightarrow> Some (Inl e)
      | Inr cr \<Rightarrow>
          map_option (\<lambda>ws. Inr (set_pc i Failing (s\<lparr>ds_cr := cr, ds_workers := ws\<rparr>)))
            (notify_one k (ds_workers s)))"

definition set_segment_step :: "nat \<Rightarrow> SegmentId \<Rightarrow> 'ip dsys \<Rightarrow> 'ip dsys result" where
  "set_segment_step i n s =
     bindE (set_segment n (ds_cr s)) (\<lambda>(all, cr).
       Inr (set_pc i LoopHead
              (s\<lparr>ds_cr := cr,
                 ds_workers := (if all then notify_all (ds_workers s) else ds_workers s)\<rparr>)))"

text \<open>One turn of \<open>controll_workers\<close> up to the calls of \<open>check_timeout\<close>.\<close>

definition tick_step :: "clock \<Rightarrow> 'ip dsys \<Rightarrow> 'ip dsys result" where
  "tick_step now s =
     (if is_completed (ds_cr s)
      then bindE (file_contents (ds_cr s)) (\<lambda>f. Inr (s\<lparr>ds_ctl := CtlStored, ds_stored := Some f\<rparr>))
      else if all_workers_unavailable now s then Inr (s\<lparr>ds_ctl := CtlAborted\<rparr>)
      else Inr (s\<lparr>ds_ctl := CtlCheck 0\<rparr>))"

definition check_worker_step :: "clock \<Rightarrow> nat \<Rightarrow> nat \<Rightarrow> 'ip dsys \<Rightarrow> 'ip dsys result option" where
  "check_worker_step now k j s =
     (if j < length (ds_workers s)
      then case check_timeout now (ds_workers s ! j) (ds_hosts s) (ds_cr s) of
             Inl e \<Rightarrow> Some (Inl e)
           | Inr (notify, w, hs, cr) \<Rightarrow>
               map_option (\<lambda>ws. Inr (s\<lparr>ds_cr := cr, ds_hosts := hs, ds_workers := ws,
                                       ds_ctl := CtlCheck (Suc j)\<rparr>))
                 (if notify then notify_one k ((ds_workers s)[j := w])
                  else Some ((ds_workers s)[j := w]))
      else Some (Inr (s\<lparr>ds_ctl := CtlWait\<rparr>)))"

text \<open>
  All steps. \<open>None\<close>: the event is not enabled in this state; \<open>Some (Inl e)\<close>: the step
  faults.
\<close>

fun fire :: "dl_event \<Rightarrow> 'ip dsys \<Rightarrow> 'ip dsys result option" where
  "fire (Connected i) s =
     (if at_pc s i Connecting then Some (Inr (set_pc i LoopHead s)) else None)"
| "fire (Connect_Failed i) s =
     (if at_pc s i Connecting then Some (Inr (set_pc i Failing s)) else None)"
| "fire (Loop_Test i) s =
     (if at_pc s i LoopHead
      then Some (Inr (set_pc i (if w_closed (ds_workers s ! i) then Finished else GetCheck) s))
      else None)"
| "fire (Get_Check i) s =
     (if at_pc s i GetCheck
      then Some (Inr (set_pc i (if is_completed (ds_cr s) then Finished else GetScan) s))
      else None)"
| "fire (Get_Scan i) s = (if at_pc s i GetScan then Some (scan_step i s) else None)"
| "fire (Own i) s =
     (if i < length (ds_workers s)
      then case w_pc (ds_workers s ! i) of
             Assigned n \<Rightarrow>
               Some (Inr (upd_worker i (\<lambda>w. w\<lparr>owned_segment_id := n, w_pc := Downloading n\<rparr>) s))
           | _ \<Rightarrow> None
      else None)"
| "fire (Receive i bs) s =
     (if i < length (ds_workers s) \<and> length bs = SEGMENT_SIZE
      then case w_pc (ds_workers s ! i) of
             Downloading n \<Rightarrow> Some (receive_step i n bs s)
           | _ \<Rightarrow> None
      else None)"
| "fire (Receive_Failed i part k) s =
     (if i < length (ds_workers s) \<and> length part < SEGMENT_SIZE
      then case w_pc (ds_workers s ! i) of
             Downloading n \<Rightarrow> receive_failed_step i n part k s
           | _ \<Rightarrow> None
      else None)"
| "fire (Set_Segment i) s =
     (if i < length (ds_workers s)
      then case w_pc (ds_workers s ! i) of
             Storing n \<Rightarrow> Some (set_segment_step i n s)
           | _ \<Rightarrow> None
      else None)"
| "fire (Terminate i) s =
     (if at_pc s i Failing
      then Some (Inr (upd_worker i (\<lambda>w. w\<lparr>w_closed := True, w_pc := Failed\<rparr>) s)) else None)"
| "fire (Spurious i) s =
     (if at_pc s i Waiting then Some (Inr (set_pc i GetCheck s)) else None)"
| "fire (Tick now) s = (if ds_ctl s = CtlWait then Some (tick_step now s) else None)"
| "fire (Check_Worker now k) s =
     (case ds_ctl s of CtlCheck j \<Rightarrow> check_worker_step now k j s | _ \<Rightarrow> None)"
| "fire (Close i) s =
     (if i < length (ds_workers s) \<and> (ds_ctl s = CtlStored \<or> ds_ctl s = CtlAborted)
      then Some (Inr (upd_worker i close_worker s)) else None)"

text \<open>States reachable by steps that satisfy a restriction on the environment.\<close>

inductive run_under :: "(dl_event \<Rightarrow> 'ip dsys \<Rightarrow> bool) \<Rightarrow> 'ip dsys \<Rightarrow> 'ip dsys \<Rightarrow> bool"
  for allowed :: "dl_event \<Rightarrow> 'ip dsys \<Rightarrow> bool" and s0 :: "'ip dsys" where
  start: "run_under allowed s0 s0"
| step: "run_under allowed s0 s \<Longrightarrow> allowed e s \<Longrightarrow> fire e s = Some (Inr s') \<Longrightarrow>
    run_under allowed s0 s'"

text \<open>Running a given schedule.\<close>

fun run_events ::
    "(dl_event \<Rightarrow> 'ip dsys \<Rightarrow> bool) \<Rightarrow> dl_event list \<Rightarrow> 'ip dsys \<Rightarrow> 'ip dsys option" where
  "run_events allowed [] s = Some s"
| "run_events allowed (e # es) s =
     (if allowed e s
      then case fire e s of Some (Inr s') \<Rightarrow> run_events allowed es s' | _ \<Rightarrow> None
      else None)"

text \<open>The steps that can fault when no timeout is charged.\<close>

definition may_fault :: "dl_event \<Rightarrow> 'ip dsys \<Rightarrow> bool" where
  "may_fault e s \<longleftrightarrow>
     (case e of
        Receive_Failed i part k \<Rightarrow>
          (case w_pc (ds_workers s ! i) of Downloading n \<Rightarrow> 28 < unat n | _ \<Rightarrow> False)
      | Tick now \<Rightarrow> is_completed (ds_cr s) \<and>
          seg_count (ds_cr s) * SEGMENT_SIZE < unat (res_size (cr_resource (ds_cr s)))
      | _ \<Rightarrow> False)"

text \<open>The steps of the worker threads; the others are the controller's and the destructor's.\<close>

fun worker_step :: "dl_event \<Rightarrow> bool" where
  "worker_step (Tick now) = False"
| "worker_step (Check_Worker now k) = False"
| "worker_step (Close i) = False"
| "worker_step e = True"

section \<open>Restrictions on the environment\<close>

text \<open>No worker is charged a timeout, so no segment is taken from a worker that holds it.\<close>

fun no_timeout :: "dl_event \<Rightarrow> 'ip dsys \<Rightarrow> bool" where
  "no_timeout (Check_Worker now k) s =
     (case ds_ctl s of
        CtlCheck j \<Rightarrow> \<not> (j < length (ds_workers s) \<and> w_timeouted (ds_workers s ! j))
      | _ \<Rightarrow> True)"
| "no_timeout _ s = True"

text \<open>Segment \<open>n\<close> of a file as the protocol transmits it, padded with zeros.\<close>

definition file_block :: "Uint8 list \<Rightarrow> nat \<Rightarrow> Uint8 list" where
  "file_block f n = take SEGMENT_SIZE (drop (n * SEGMENT_SIZE) f @ replicate SEGMENT_SIZE 0)"

lemma length_file_block: "length (file_block f n) = 1024"
  by (simp add: file_block_def)

text \<open>Every complete reply is the segment of the file \<open>f\<close> that was asked for.\<close>

fun honest :: "Uint8 list \<Rightarrow> dl_event \<Rightarrow> 'ip dsys \<Rightarrow> bool" where
  "honest f (Receive i bs) s =
     (case w_pc (ds_workers s ! i) of
        Downloading n \<Rightarrow> bs = file_block f (unat n)
      | _ \<Rightarrow> True)"
| "honest f _ s = True"

section \<open>The steps by kind\<close>

text \<open>Every enabled step is one of these; most only move a thread from one place to another.\<close>

lemma fire_cases [consumes 1, case_names moved scanned owned received failed stored terminated ticked checked closed]:
  assumes "fire e s = Some x"
  obtains
    (moved) i q p where "e \<in> {Connected i, Connect_Failed i, Loop_Test i, Get_Check i, Spurious i}"
      "(q, p) \<in> {(Connecting, LoopHead), (Connecting, Failing), (LoopHead, Finished), (LoopHead, GetCheck),
         (GetCheck, Finished), (GetCheck, GetScan), (Waiting, GetCheck)}"
      "q = Waiting \<longleftrightarrow> e = Spurious i" "at_pc s i q" "x = Inr (set_pc i p s)"
      "q = Connecting \<and> p = LoopHead \<longleftrightarrow> e = Connected i" "p = Finished \<Longrightarrow> e = Loop_Test i \<or> e = Get_Check i"
  | (scanned) i where "e = Get_Scan i" "at_pc s i GetScan" "scan_step i s = x"
  | (owned) i n where "e = Own i" "i < length (ds_workers s)" "w_pc (ds_workers s ! i) = Assigned n"
      "x = Inr (upd_worker i (\<lambda>w. w\<lparr>owned_segment_id := n, w_pc := Downloading n\<rparr>) s)"
  | (received) i bs n where "e = Receive i bs" "i < length (ds_workers s)"
      "w_pc (ds_workers s ! i) = Downloading n" "length bs = SEGMENT_SIZE" "receive_step i n bs s = x"
  | (failed) i part k n where "e = Receive_Failed i part k" "i < length (ds_workers s)"
      "w_pc (ds_workers s ! i) = Downloading n" "length part < SEGMENT_SIZE"
      "receive_failed_step i n part k s = Some x"
  | (stored) i n where "e = Set_Segment i" "i < length (ds_workers s)"
      "w_pc (ds_workers s ! i) = Storing n" "set_segment_step i n s = x"
  | (terminated) i where "e = Terminate i" "at_pc s i Failing"
      "x = Inr (upd_worker i (\<lambda>w. w\<lparr>w_closed := True, w_pc := Failed\<rparr>) s)"
  | (ticked) now where "e = Tick now" "ds_ctl s = CtlWait" "tick_step now s = x"
  | (checked) now k j where "e = Check_Worker now k" "ds_ctl s = CtlCheck j" "check_worker_step now k j s = Some x"
  | (closed) i where "e = Close i" "i < length (ds_workers s)" "ds_ctl s = CtlStored \<or> ds_ctl s = CtlAborted"
      "x = Inr (upd_worker i close_worker s)"
proof (cases e)
  case (Connected i)
  with assms moved [of i Connecting LoopHead] show thesis by (simp split: if_splits)
next
  case (Connect_Failed i)
  with assms moved [of i Connecting Failing] show thesis by (simp split: if_splits)
next
  case (Loop_Test i)
  with assms moved [of i LoopHead Finished] moved [of i LoopHead GetCheck] show thesis by (simp split: if_splits)
next
  case (Get_Check i)
  with assms moved [of i GetCheck Finished] moved [of i GetCheck GetScan] show thesis by (simp split: if_splits)
next
  case (Spurious i)
  with assms moved [of i Waiting GetCheck] show thesis by (simp split: if_splits)
next
  case (Get_Scan i)
  with assms scanned show thesis by (simp split: if_splits)
next
  case (Own i)
  with assms owned show thesis by (simp split: if_splits thread_pc.splits)
next
  case (Receive i bs)
  with assms received show thesis by (simp split: if_splits thread_pc.splits)
next
  case (Receive_Failed i part k)
  with assms failed show thesis by (simp split: if_splits thread_pc.splits)
next
  case (Set_Segment i)
  with assms stored show thesis by (simp split: if_splits thread_pc.splits)
next
  case (Terminate i)
  with assms terminated show thesis by (simp split: if_splits)
next
  case (Tick now)
  with assms ticked show thesis by (simp split: if_splits)
next
  case (Check_Worker now k)
  with assms checked show thesis by (simp split: ctl_pc.splits)
next
  case (Close i)
  with assms closed show thesis by (simp split: if_splits)
qed

text \<open>Checking a worker marks it and may wake another.\<close>

lemma check_worker_workers:
  assumes "check_worker_step now k j s = Some (Inr s')"
  shows "list_all2 woken ((ds_workers s)[j := (ds_workers s ! j)\<lparr>w_timeouted := True\<rparr>]) (ds_workers s')"
proof (cases "j < length (ds_workers s)")
  case True
  let ?ws = "(ds_workers s)[j := (ds_workers s ! j)\<lparr>w_timeouted := True\<rparr>]"
  from True assms obtain ws where "ds_workers s' = ws" "ws = ?ws \<or> notify_one k ?ws = Some ws"
    by (auto simp: check_worker_step_def check_timeout_def bindE_def split: sum.splits if_splits)
  then show ?thesis using notify_one_woken [of k ?ws ws] by (auto simp: list_all2_refl woken_refl)
qed (use assms in \<open>auto simp: check_worker_step_def list_update_beyond list_all2_refl woken_refl\<close>)

text \<open>A worker thread changes neither the hosts nor where the controlling thread is.\<close>

lemma worker_step_frame:
  assumes "fire e s = Some (Inr s')" "worker_step e"
  shows "ds_hosts s' = ds_hosts s \<and> ds_ctl s' = ds_ctl s \<and> ds_stored s' = ds_stored s"
  using assms(1)
proof (cases rule: fire_cases)
  case (failed i part k n)
  then show ?thesis
    by (auto simp: receive_failed_step_def set_pc_def upd_worker_def split: sum.splits)
qed (use assms(2) in \<open>auto simp: set_pc_def upd_worker_def scan_step_def receive_step_def set_segment_step_def
  bindE_Inr_iff split: option.splits\<close>)

end
