(* ===== verification/Download_Invariant.thy ===== *)
theory Download_Invariant
  imports Download_System
begin

text \<open>
  What holds in every download in which no timeout is charged, whatever the interleaving:
  a segment is held by at most one worker, the counter counts the completed segments, a
  completed segment holds the octets the peer sent, and so the stored file is the file.
\<close>

section \<open>The invariant\<close>

text \<open>What a worker holds is busy, not completed, and held by nobody else.\<close>

definition held_ok :: "CompleteResource \<Rightarrow> DownloadWorker list \<Rightarrow> bool" where
  "held_ok cr ws \<longleftrightarrow> (\<forall>i < length ws. \<forall>n. held (w_pc (ws ! i)) = Some n \<longrightarrow>
     unat n < seg_count cr \<and> busy_segments cr ! unat n \<and> \<not> completed_segments cr ! unat n)"

definition exclusive :: "DownloadWorker list \<Rightarrow> bool" where
  "exclusive ws \<longleftrightarrow> (\<forall>i < length ws. \<forall>j < length ws. \<forall>n.
     held (w_pc (ws ! i)) = Some n \<longrightarrow> held (w_pc (ws ! j)) = Some n \<longrightarrow> i = j)"

definition owned_ok :: "DownloadWorker list \<Rightarrow> bool" where
  "owned_ok ws \<longleftrightarrow> (\<forall>w \<in> set ws. \<forall>n. w_pc w = Downloading n \<or> w_pc w = Storing n \<longrightarrow>
     owned_segment_id w = n)"

definition received_ok :: "Uint8 list \<Rightarrow> CompleteResource \<Rightarrow> DownloadWorker list \<Rightarrow> bool" where
  "received_ok f cr ws \<longleftrightarrow> (\<forall>w \<in> set ws. \<forall>n. w_pc w = Storing n \<longrightarrow>
     segment_block cr (unat n) = map Some (file_block f (unat n)))"

definition workers_ok :: "Uint8 list \<Rightarrow> CompleteResource \<Rightarrow> DownloadWorker list \<Rightarrow> bool" where
  "workers_ok f cr ws \<longleftrightarrow> held_ok cr ws \<and> exclusive ws \<and> owned_ok ws \<and> received_ok f cr ws"

definition segments_ok :: "Uint8 list \<Rightarrow> CompleteResource \<Rightarrow> bool" where
  "segments_ok f cr \<longleftrightarrow> cr_ok cr \<and>
     unat (completed_counter cr) = length (filter id (completed_segments cr)) \<and>
     (\<forall>n < seg_count cr. completed_segments cr ! n \<longrightarrow>
        segment_block cr n = map Some (file_block f n))"

definition dl_inv :: "Resource \<Rightarrow> Uint8 list \<Rightarrow> 'ip dsys \<Rightarrow> bool" where
  "dl_inv r f s \<longleftrightarrow> cr_resource (ds_cr s) = r \<and> segments_ok f (ds_cr s) \<and>
     workers_ok f (ds_cr s) (ds_workers s) \<and>
     (\<forall>c. ds_stored s = Some c \<longrightarrow> length f = unat (res_size r) \<longrightarrow> c = map Some f)"

lemma dl_inv_start:
  assumes "\<forall>w \<in> set ws. held (w_pc w) = None"
  shows "dl_inv r f (init_download r hs ws)"
proof -
  have "segments_ok f (CompleteResource_new r)"
    by (auto simp: segments_ok_def CompleteResource_new_ok seg_count_def)
  moreover have "workers_ok f cr ws" for cr
    using assms
    by (auto simp: workers_ok_def held_ok_def exclusive_def owned_ok_def received_ok_def)
  ultimately show ?thesis by (simp add: dl_inv_def init_download_def)
qed

lemma dl_inv_new: "dl_inv r f (init_download r hs (map DownloadWorker_new ps))"
  by (rule dl_inv_start) (auto simp: DownloadWorker_new_def)

section \<open>Preservation, by kind of step\<close>

text \<open>Steps that move threads without giving them a segment.\<close>

definition calmer :: "DownloadWorker \<Rightarrow> DownloadWorker \<Rightarrow> bool" where
  "calmer w w' \<longleftrightarrow> held (w_pc w') = None \<or>
     w_pc w' = w_pc w \<and> owned_segment_id w' = owned_segment_id w"

lemma calmer_refl: "calmer w w"
  by (simp add: calmer_def)

lemma woken_calmer: "woken w w' \<Longrightarrow> calmer w w'"
  by (auto simp: woken_def calmer_def)

lemma calmer_held:
  "list_all2 calmer ws ws' \<Longrightarrow> i < length ws' \<Longrightarrow> held (w_pc (ws' ! i)) = Some n \<Longrightarrow>
   i < length ws \<and> held (w_pc (ws ! i)) = Some n"
  by (auto simp: list_all2_conv_all_nth calmer_def)

lemma calmer_mem:
  "list_all2 calmer ws ws' \<Longrightarrow> w' \<in> set ws' \<Longrightarrow> held (w_pc w') = Some n \<Longrightarrow>
   \<exists>w \<in> set ws. w_pc w = w_pc w' \<and> owned_segment_id w = owned_segment_id w'"
  by (metis (no_types, lifting) calmer_def in_set_conv_nth list_all2_conv_all_nth option.distinct(1))

lemma workers_ok_calmer:
  assumes "workers_ok f cr ws" "list_all2 calmer ws ws'"
  shows "workers_ok f cr ws'"
proof -
  have "held_ok cr ws'"
    using assms calmer_held [OF assms(2)] unfolding workers_ok_def held_ok_def by blast
  moreover have "exclusive ws'"
    using assms calmer_held [OF assms(2)] unfolding workers_ok_def exclusive_def by blast
  moreover have "owned_ok ws'"
    unfolding owned_ok_def
  proof (intro ballI allI impI)
    fix w' n assume w': "w' \<in> set ws'" "w_pc w' = Downloading n \<or> w_pc w' = Storing n"
    then have "held (w_pc w') = Some n" by auto
    from calmer_mem [OF assms(2) w'(1) this] w'(2) assms(1)
    show "owned_segment_id w' = n" unfolding workers_ok_def owned_ok_def by metis
  qed
  moreover have "received_ok f cr ws'"
    unfolding received_ok_def
  proof (intro ballI allI impI)
    fix w' n assume w': "w' \<in> set ws'" "w_pc w' = Storing n"
    then have "held (w_pc w') = Some n" by auto
    from calmer_mem [OF assms(2) w'(1) this] w'(2) assms(1)
    show "segment_block cr (unat n) = map Some (file_block f (unat n))"
      unfolding workers_ok_def received_ok_def by metis
  qed
  ultimately show ?thesis by (simp add: workers_ok_def)
qed

lemma calmer_upd:
  "(i < length ws \<Longrightarrow> calmer (ws ! i) w) \<Longrightarrow> list_all2 calmer ws (ws[i := w])"
  by (cases "i < length ws")
    (auto simp: list_all2_conv_all_nth nth_list_update calmer_refl list_update_beyond)

lemma dl_inv_calmer:
  assumes "dl_inv r f s" "list_all2 calmer (ds_workers s) (ds_workers s')"
    "ds_cr s' = ds_cr s" "ds_stored s' = ds_stored s"
  shows "dl_inv r f s'"
  using assms workers_ok_calmer by (auto simp: dl_inv_def)

lemma dl_inv_set_pc:
  assumes "dl_inv r f s" "held p = None"
  shows "dl_inv r f (set_pc i p s)"
  by (rule dl_inv_calmer [OF assms(1)])
    (simp_all add: set_pc_def upd_worker_def calmer_upd calmer_def assms(2))

text \<open>A segment is handed out.\<close>

text \<open>
  A step that changes one worker and the shared resource: each part of the invariant from
  what it says of the changed worker and of the others.
\<close>

lemma held_ok_upd:
  assumes "\<And>j n. j < length ws \<Longrightarrow> j \<noteq> i \<Longrightarrow> held (w_pc (ws ! j)) = Some n \<Longrightarrow>
      unat n < seg_count cr' \<and> busy_segments cr' ! unat n \<and> \<not> completed_segments cr' ! unat n"
    and "\<And>n. held (w_pc w) = Some n \<Longrightarrow>
      unat n < seg_count cr' \<and> busy_segments cr' ! unat n \<and> \<not> completed_segments cr' ! unat n"
    and "i < length ws"
  shows "held_ok cr' (ws[i := w])"
  unfolding held_ok_def
proof (intro allI impI)
  fix j n assume "j < length (ws[i := w])" "held (w_pc (ws[i := w] ! j)) = Some n"
  with assms show "unat n < seg_count cr' \<and> busy_segments cr' ! unat n \<and> \<not> completed_segments cr' ! unat n"
    by (cases "j = i") auto
qed

lemma exclusive_upd:
  assumes "exclusive ws" "i < length ws"
    and "\<And>j n. held (w_pc w) = Some n \<Longrightarrow> j < length ws \<Longrightarrow> j \<noteq> i \<Longrightarrow> held (w_pc (ws ! j)) \<noteq> Some n"
  shows "exclusive (ws[i := w])"
  unfolding exclusive_def
proof (intro allI impI)
  fix j k n
  assume "j < length (ws[i := w])" "k < length (ws[i := w])"
    "held (w_pc (ws[i := w] ! j)) = Some n" "held (w_pc (ws[i := w] ! k)) = Some n"
  note jk = this
  show "j = k"
  proof (cases "j = i \<or> k = i")
    case True
    with jk assms(2,3) show ?thesis by (metis length_list_update nth_list_update)
  next
    case False
    with jk assms(1) show ?thesis unfolding exclusive_def by auto
  qed
qed

lemma owned_ok_upd:
  assumes "owned_ok ws"
    and "\<And>n. w_pc w = Downloading n \<or> w_pc w = Storing n \<Longrightarrow> owned_segment_id w = n"
  shows "owned_ok (ws[i := w])"
  using assms set_update_subset_insert [of ws i w] unfolding owned_ok_def by blast

lemma exclusive_other:
  "exclusive ws \<Longrightarrow> i < length ws \<Longrightarrow> held (w_pc (ws ! i)) = Some n \<Longrightarrow>
   j < length ws \<Longrightarrow> j \<noteq> i \<Longrightarrow> held (w_pc (ws ! j)) \<noteq> Some n"
  unfolding exclusive_def by metis

lemma received_ok_upd:
  assumes "\<And>j n. j < length ws \<Longrightarrow> j \<noteq> i \<Longrightarrow> w_pc (ws ! j) = Storing n \<Longrightarrow>
      segment_block cr' (unat n) = map Some (file_block f (unat n))"
    and "\<And>n. w_pc w = Storing n \<Longrightarrow> segment_block cr' (unat n) = map Some (file_block f (unat n))"
    and "i < length ws"
  shows "received_ok f cr' (ws[i := w])"
  unfolding received_ok_def
proof (intro ballI allI impI)
  fix v n assume "v \<in> set (ws[i := w])" "w_pc v = Storing n"
  then obtain j where "j < length ws" "v = ws[i := w] ! j" by (auto simp: in_set_conv_nth)
  with \<open>w_pc v = Storing n\<close> assms
  show "segment_block cr' (unat n) = map Some (file_block f (unat n))" by (cases "j = i") auto
qed

text \<open>A segment is handed out.\<close>

lemma dl_inv_assign:
  assumes inv: "dl_inv r f s" and i: "i < length (ds_workers s)"
    and n: "n < seg_count (ds_cr s)" "\<not> busy_segments (ds_cr s) ! n" "\<not> completed_segments (ds_cr s) ! n"
  shows "dl_inv r f (set_pc i (Assigned (word_of_nat n))
    (s\<lparr>ds_cr := (ds_cr s)\<lparr>busy_segments := (busy_segments (ds_cr s))[n := True]\<rparr>\<rparr>))"
proof -
  let ?cr = "ds_cr s" and ?ws = "ds_workers s"
  let ?cr' = "?cr\<lparr>busy_segments := (busy_segments ?cr)[n := True]\<rparr>"
  let ?w = "(?ws ! i)\<lparr>w_pc := Assigned (word_of_nat n)\<rparr>"
  have u: "unat (word_of_nat n :: SegmentId) = n" using n(1) by (rule unat_seg_id)
  have ok: "segments_ok f ?cr" "held_ok ?cr ?ws" "exclusive ?ws" "owned_ok ?ws" "received_ok f ?cr ?ws"
    using inv by (auto simp: dl_inv_def workers_ok_def)
  have len: "n < length (busy_segments ?cr)" using ok(1) n(1) by (simp add: segments_ok_def cr_ok_def)
  have sc: "seg_count ?cr' = seg_count ?cr" "segment_block ?cr' k = segment_block ?cr k" for k
    by (simp_all add: seg_count_def segment_block_def)
  have other: "unat m < seg_count ?cr \<and> n \<noteq> unat m \<and> busy_segments ?cr ! unat m \<and>
      \<not> completed_segments ?cr ! unat m"
    if "j < length ?ws" "held (w_pc (?ws ! j)) = Some m" for j m
    using ok(2) that n(2) unfolding held_ok_def by metis
  have "segments_ok f ?cr'"
    using ok(1) by (simp add: segments_ok_def cr_ok_def seg_count_def segment_block_def)
  moreover have "held_ok ?cr' (?ws[i := ?w])"
    by (rule held_ok_upd) (use other len n u i in \<open>auto simp: sc\<close>)
  moreover have "exclusive (?ws[i := ?w])"
    by (rule exclusive_upd [OF ok(3) i]) (use other u in fastforce)
  moreover have "owned_ok (?ws[i := ?w])"
    by (rule owned_ok_upd [OF ok(4)]) simp
  moreover have "received_ok f ?cr' (?ws[i := ?w])"
    by (rule received_ok_upd) (use ok(5) i sc in \<open>auto simp: received_ok_def\<close>)
  ultimately show ?thesis
    using inv by (simp add: dl_inv_def workers_ok_def set_pc_def upd_worker_def)
qed

text \<open>The assignment of \<open>owned_segment_id\<close>.\<close>

lemma dl_inv_own:
  assumes inv: "dl_inv r f s" and i: "i < length (ds_workers s)"
    and pc: "w_pc (ds_workers s ! i) = Assigned n"
  shows "dl_inv r f (upd_worker i (\<lambda>w. w\<lparr>owned_segment_id := n, w_pc := Downloading n\<rparr>) s)"
proof -
  let ?cr = "ds_cr s" and ?ws = "ds_workers s"
  let ?w = "(?ws ! i)\<lparr>owned_segment_id := n, w_pc := Downloading n\<rparr>"
  have ok: "held_ok ?cr ?ws" "exclusive ?ws" "owned_ok ?ws" "received_ok f ?cr ?ws"
    using inv by (auto simp: dl_inv_def workers_ok_def)
  have h: "held (w_pc (?ws ! i)) = Some n" by (simp add: pc)
  have "held_ok ?cr (?ws[i := ?w])"
    by (rule held_ok_upd) (use ok(1) h i in \<open>auto simp: held_ok_def\<close>)
  moreover have "exclusive (?ws[i := ?w])"
    by (rule exclusive_upd [OF ok(2) i]) (use exclusive_other [OF ok(2) i h] in simp)
  moreover have "owned_ok (?ws[i := ?w])"
    by (rule owned_ok_upd [OF ok(3)]) simp
  moreover have "received_ok f ?cr (?ws[i := ?w])"
    by (rule received_ok_upd) (use ok(4) i in \<open>auto simp: received_ok_def\<close>)
  ultimately show ?thesis
    using inv by (simp add: dl_inv_def workers_ok_def upd_worker_def)
qed

text \<open>Octets written through the data pointer of a segment.\<close>

lemma write_block:
  assumes "cr_ok cr" "unat n < seg_count cr" "length bs \<le> SEGMENT_SIZE"
  obtains cr' where "write_data (segment_at n) bs cr = Inr cr'" "cr_ok cr'"
    "cr_resource cr' = cr_resource cr" "busy_segments cr' = busy_segments cr"
    "completed_segments cr' = completed_segments cr" "completed_counter cr' = completed_counter cr"
    "seg_count cr' = seg_count cr"
    "\<And>m. m < seg_count cr \<Longrightarrow> segment_block cr' m =
       (if m = unat n then map Some bs @ drop (length bs) (segment_block cr m)
        else segment_block cr m)"
proof -
  let ?d = "cr_data cr" and ?i = "unat n"
  let ?d' = "take (?i * SEGMENT_SIZE) ?d @ map Some bs @ drop (?i * SEGMENT_SIZE + length bs) ?d"
  have len: "length ?d = seg_count cr * SEGMENT_SIZE" using assms(1) by (simp add: cr_ok_def)
  have "length ?d' = length ?d"
    using len assms(3) segment_fits [OF assms(2)] by simp
  moreover have "take SEGMENT_SIZE (drop (m * SEGMENT_SIZE) ?d') =
      (if m = ?i then map Some bs @ drop (length bs) (take SEGMENT_SIZE (drop (?i * SEGMENT_SIZE) ?d))
       else take SEGMENT_SIZE (drop (m * SEGMENT_SIZE) ?d))" if "m < seg_count cr" for m
    using take_drop_write [OF len assms(2) that, of "map Some bs"] assms(3) by simp
  ultimately show thesis
    using assms(1)
    by (intro that [of "cr\<lparr>cr_data := ?d'\<rparr>"])
      (simp_all only: segment_at_def write_data_ok [OF assms],
       auto simp: cr_ok_def seg_count_def segment_block_def)
qed

lemma dl_inv_receive:
  assumes inv: "dl_inv r f s" and i: "i < length (ds_workers s)"
    and pc: "w_pc (ds_workers s ! i) = Downloading n"
    and bs: "bs = file_block f (unat n)" "length bs = SEGMENT_SIZE"
  shows "\<exists>s'. receive_step i n bs s = Inr s' \<and> dl_inv r f s'"
proof -
  let ?cr = "ds_cr s" and ?ws = "ds_workers s"
  let ?w = "(?ws ! i)\<lparr>w_timeouted := False, w_pc := Storing n\<rparr>"
  have ok: "segments_ok f ?cr" "held_ok ?cr ?ws" "exclusive ?ws" "owned_ok ?ws" "received_ok f ?cr ?ws"
    using inv by (auto simp: dl_inv_def workers_ok_def)
  have h: "held (w_pc (?ws ! i)) = Some n" by (simp add: pc)
  have n: "unat n < seg_count ?cr" "\<not> completed_segments ?cr ! unat n"
    using ok(2) i h by (auto simp: held_ok_def)
  have cr: "cr_ok ?cr" using ok(1) by (simp add: segments_ok_def)
  obtain cr' where cr': "write_data (segment_at n) bs ?cr = Inr cr'" "cr_ok cr'"
    "cr_resource cr' = cr_resource ?cr" "busy_segments cr' = busy_segments ?cr"
    "completed_segments cr' = completed_segments ?cr" "completed_counter cr' = completed_counter ?cr"
    "seg_count cr' = seg_count ?cr"
    "\<And>m. m < seg_count ?cr \<Longrightarrow> segment_block cr' m =
       (if m = unat n then map Some bs @ drop (length bs) (segment_block ?cr m)
        else segment_block ?cr m)"
    using write_block [OF cr n(1), of bs] bs(2) by auto
  have blk: "segment_block cr' (unat n) = map Some (file_block f (unat n))"
    using cr'(8) [OF n(1)] bs by (simp add: segment_block_def)
  have "segments_ok f cr'"
    using ok(1) cr' n(2) by (auto simp: segments_ok_def)
  moreover have "held_ok cr' (?ws[i := ?w])"
    by (rule held_ok_upd) (use ok(2) h i cr' in \<open>auto simp: held_ok_def\<close>)
  moreover have "exclusive (?ws[i := ?w])"
    by (rule exclusive_upd [OF ok(3) i]) (use exclusive_other [OF ok(3) i h] in simp)
  moreover have "owned_ok (?ws[i := ?w])"
    by (rule owned_ok_upd [OF ok(4)]) (use ok(4) i pc in \<open>auto simp: owned_ok_def\<close>)
  moreover have "received_ok f cr' (?ws[i := ?w])"
  proof (rule received_ok_upd [OF _ _ i])
    fix j m assume j: "j < length ?ws" "j \<noteq> i" "w_pc (?ws ! j) = Storing m"
    then have hj: "held (w_pc (?ws ! j)) = Some m" by simp
    then have "unat m \<noteq> unat n"
      using exclusive_other [OF ok(3) i h j(1,2)] by (auto simp: word_unat_eq_iff [symmetric])
    moreover have "unat m < seg_count ?cr" using ok(2) j(1) hj by (auto simp: held_ok_def)
    ultimately show "segment_block cr' (unat m) = map Some (file_block f (unat m))"
      using cr'(8) ok(5) j by (auto simp: received_ok_def)
  qed (use blk in simp)
  ultimately have "dl_inv r f (upd_worker i (\<lambda>w. w\<lparr>w_timeouted := False, w_pc := Storing n\<rparr>)
      (s\<lparr>ds_cr := cr'\<rparr>))"
    using inv cr'(3) by (simp add: dl_inv_def workers_ok_def upd_worker_def)
  then show ?thesis using cr'(1) by (simp add: receive_step_def)
qed

text \<open>A worker gives its segment up or completes it, possibly waking others.\<close>

lemma workers_ok_release:
  assumes ok: "workers_ok f cr ws" and wk: "list_all2 woken ws ws'" and i: "i < length ws"
    and h: "held (w_pc (ws ! i)) = Some n" and p: "held p = None"
    and cr': "seg_count cr' = seg_count cr"
      "\<And>m. m < seg_count cr \<Longrightarrow> m \<noteq> unat n \<Longrightarrow> busy_segments cr' ! m = busy_segments cr ! m \<and>
         completed_segments cr' ! m = completed_segments cr ! m \<and>
         segment_block cr' m = segment_block cr m"
  shows "workers_ok f cr' (ws'[i := (ws' ! i)\<lparr>w_pc := p\<rparr>])"
proof -
  have "list_all2 calmer ws ws'" using wk by (rule list_all2_mono) (rule woken_calmer)
  with ok have "workers_ok f cr ws'" by (rule workers_ok_calmer)
  then have ok': "held_ok cr ws'" "exclusive ws'" "owned_ok ws'" "received_ok f cr ws'"
    by (simp_all add: workers_ok_def)
  have i': "i < length ws'" using i wk by (simp add: list_all2_lengthD)
  have h': "held (w_pc (ws' ! i)) = Some n"
    using woken_held [OF list_all2_nthD [OF wk i]] h by simp
  have other: "unat m < seg_count cr \<and> unat m \<noteq> unat n"
    if "j < length ws'" "j \<noteq> i" "held (w_pc (ws' ! j)) = Some m" for j m
    using exclusive_other [OF ok'(2) i' h' that(1,2)] ok'(1) that
    unfolding held_ok_def by (metis word_unat_eq_iff)
  let ?w = "(ws' ! i)\<lparr>w_pc := p\<rparr>"
  have "held_ok cr' (ws'[i := ?w])"
    by (rule held_ok_upd) (use other ok'(1) i' p cr' in \<open>auto simp: held_ok_def\<close>)
  moreover have "exclusive (ws'[i := ?w])"
    by (rule exclusive_upd [OF ok'(2) i']) (use p in simp)
  moreover have "owned_ok (ws'[i := ?w])"
    by (rule owned_ok_upd [OF ok'(3)]) (use p in auto)
  moreover have "received_ok f cr' (ws'[i := ?w])"
  proof (rule received_ok_upd [OF _ _ i'])
    fix j m assume j: "j < length ws'" "j \<noteq> i" "w_pc (ws' ! j) = Storing m"
    then have "held (w_pc (ws' ! j)) = Some m" by simp
    with other [OF j(1,2)] cr'(2) ok'(4) j(1,3)
    show "segment_block cr' (unat m) = map Some (file_block f (unat m))"
      unfolding received_ok_def by (metis nth_mem)
  qed (use p in auto)
  ultimately show ?thesis by (simp add: workers_ok_def)
qed

lemma failure_message_cases:
  "failure_message n = (if unat n \<le> 28 then Inr (drop (unat n) ''Failed to download segment: '')
     else Inl OutOfBounds)"
proof -
  have "length ''Failed to download segment: '' = 28" by simp
  then show ?thesis unfolding failure_message_def Let_def by simp
qed

lemma dl_inv_receive_failed:
  assumes inv: "dl_inv r f s" and i: "i < length (ds_workers s)"
    and pc: "w_pc (ds_workers s ! i) = Downloading n" and part: "length part \<le> SEGMENT_SIZE"
    and ws': "receive_failed_step i n part k s = Some x"
  shows "if unat n \<le> 28 then \<exists>s'. x = Inr s' \<and> dl_inv r f s' else x = Inl OutOfBounds"
proof -
  let ?cr = "ds_cr s" and ?ws = "ds_workers s"
  have ok: "segments_ok f ?cr" "workers_ok f ?cr ?ws" "held_ok ?cr ?ws" "owned_ok ?ws"
    using inv by (auto simp: dl_inv_def workers_ok_def)
  have h: "held (w_pc (?ws ! i)) = Some n" by (simp add: pc)
  have n: "unat n < seg_count ?cr" "\<not> completed_segments ?cr ! unat n"
    using ok(3) i h by (auto simp: held_ok_def)
  have cr: "cr_ok ?cr" using ok(1) by (simp add: segments_ok_def)
  obtain cr1 where cr1: "write_data (segment_at n) part ?cr = Inr cr1" "cr_ok cr1"
    "cr_resource cr1 = cr_resource ?cr" "busy_segments cr1 = busy_segments ?cr"
    "completed_segments cr1 = completed_segments ?cr" "completed_counter cr1 = completed_counter ?cr"
    "seg_count cr1 = seg_count ?cr"
    "\<And>m. m < seg_count ?cr \<Longrightarrow> segment_block cr1 m =
       (if m = unat n then map Some part @ drop (length part) (segment_block ?cr m)
        else segment_block ?cr m)"
    using write_block [OF cr n(1) part] by blast
  let ?cr2 = "cr1\<lparr>busy_segments := (busy_segments cr1)[unat n := False]\<rparr>"
  have own: "owned_segment_id (?ws ! i) = n" using ok(4) i pc by (auto simp: owned_ok_def)
  have "unset_busy n cr1 = Inr ?cr2"
    using unset_busy_ok [OF cr1(2), of "unat n"] n(1) cr1(7) by simp
  then have x: "Some x = (if unat n \<le> 28
      then map_option (\<lambda>ws. Inr (set_pc i Failing (s\<lparr>ds_cr := ?cr2, ds_workers := ws\<rparr>)))
             (notify_one k ?ws)
      else Some (Inl OutOfBounds))"
    using ws' cr1(1) own by (auto simp: receive_failed_step_def failure_message_cases)
  show ?thesis
  proof (cases "unat n \<le> 28")
    case True
    with x obtain ws1 where ws1: "notify_one k ?ws = Some ws1"
        "x = Inr (set_pc i Failing (s\<lparr>ds_cr := ?cr2, ds_workers := ws1\<rparr>))"
      by (cases "notify_one k ?ws") auto
    have sc: "seg_count ?cr2 = seg_count ?cr" "segment_block ?cr2 m = segment_block cr1 m" for m
      using cr1(7) by (simp_all add: seg_count_def segment_block_def)
    have "workers_ok f ?cr2 (ws1[i := (ws1 ! i)\<lparr>w_pc := Failing\<rparr>])"
      by (rule workers_ok_release [OF ok(2) notify_one_woken [OF ws1(1)] i h])
        (use sc cr1 in auto)
    moreover have "segments_ok f ?cr2"
      using ok(1) cr1 n(2) sc by (auto simp: segments_ok_def cr_ok_def)
    ultimately show ?thesis
      using True inv cr1(3) ws1(2) by (simp add: dl_inv_def set_pc_def upd_worker_def)
  qed (use x in simp)
qed

lemma length_filter_set_True:
  "n < length bits \<Longrightarrow> \<not> bits ! n \<Longrightarrow>
   length (filter id (bits[n := True])) = Suc (length (filter id bits))"
  by (induction bits arbitrary: n) (auto split: nat.splits simp: less_Suc_eq_0_disj)

lemma segments_ok_completed:
  assumes "segments_ok f cr" "n < seg_count cr" "\<not> completed_segments cr ! n"
    and "segment_block cr n = map Some (file_block f n)"
  shows "segments_ok f (cr\<lparr>busy_segments := (busy_segments cr)[n := False],
    completed_segments := (completed_segments cr)[n := True], completed_counter := completed_counter cr + 1\<rparr>)"
proof -
  let ?done = "(completed_segments cr)[n := True]"
  have cr: "cr_ok cr" using assms(1) by (simp add: segments_ok_def)
  then have len: "n < length (completed_segments cr)" using assms(2) by (simp add: cr_ok_def)
  have "length (filter id ?done) \<le> 65535"
    using length_filter_le [of id ?done] cr seg_count_bound [of cr] by (simp add: cr_ok_def)
  with length_filter_set_True [OF len assms(3)] assms(1)
  have "unat (completed_counter cr + 1) = length (filter id ?done)"
    by (simp add: segments_ok_def unat_word_ariths)
  moreover have "segment_block cr m = map Some (file_block f m)" if "m < seg_count cr" "?done ! m" for m
    using that assms(1,4) by (cases "m = n") (simp_all add: segments_ok_def)
  ultimately show ?thesis
    using assms(1) unfolding segments_ok_def by (simp add: cr_ok_def seg_count_def segment_block_def)
qed

lemma dl_inv_set_segment:
  assumes inv: "dl_inv r f s" and i: "i < length (ds_workers s)"
    and pc: "w_pc (ds_workers s ! i) = Storing n"
  shows "\<exists>s'. set_segment_step i n s = Inr s' \<and> dl_inv r f s'"
proof -
  let ?cr = "ds_cr s" and ?ws = "ds_workers s"
  have ok: "segments_ok f ?cr" "workers_ok f ?cr ?ws" "held_ok ?cr ?ws" "received_ok f ?cr ?ws"
    using inv by (auto simp: dl_inv_def workers_ok_def)
  have h: "held (w_pc (?ws ! i)) = Some n" by (simp add: pc)
  have n: "unat n < seg_count ?cr" "\<not> completed_segments ?cr ! unat n"
    using ok(3) i h by (auto simp: held_ok_def)
  have cr: "cr_ok ?cr" using ok(1) by (simp add: segments_ok_def)
  let ?cr' = "?cr\<lparr>busy_segments := (busy_segments ?cr)[unat n := False],
     completed_segments := (completed_segments ?cr)[unat n := True],
     completed_counter := completed_counter ?cr + 1\<rparr>"
  define all where "all = (completed_counter ?cr + 1 = calc_segments_count (cr_resource ?cr))"
  define ws1 where "ws1 = (if all then notify_all ?ws else ?ws)"
  have "set_segment n ?cr = Inr (all, ?cr')"
    using set_segment_ok [OF cr n(1)] by (simp add: all_def)
  then have step: "set_segment_step i n s =
      Inr (set_pc i LoopHead (s\<lparr>ds_cr := ?cr', ds_workers := ws1\<rparr>))"
    by (simp add: set_segment_step_def ws1_def)
  have wk: "list_all2 woken ?ws ws1"
    using notify_all_woken [of ?ws] by (simp add: ws1_def list.rel_refl woken_refl)
  have sc: "seg_count ?cr' = seg_count ?cr" "segment_block ?cr' m = segment_block ?cr m" for m
    by (simp_all add: seg_count_def segment_block_def)
  have "workers_ok f ?cr' (ws1[i := (ws1 ! i)\<lparr>w_pc := LoopHead\<rparr>])"
    by (rule workers_ok_release [OF ok(2) wk i h]) (use sc in auto)
  moreover have "segments_ok f ?cr'"
    by (rule segments_ok_completed [OF ok(1) n]) (use ok(4) i pc in \<open>auto simp: received_ok_def\<close>)
  ultimately have "dl_inv r f (set_pc i LoopHead (s\<lparr>ds_cr := ?cr', ds_workers := ws1\<rparr>))"
    using inv by (simp add: dl_inv_def set_pc_def upd_worker_def)
  with step show ?thesis by blast
qed

section \<open>Completion\<close>

lemma all_True_of_count:
  "length (filter id bits) = length bits \<Longrightarrow> n < length bits \<Longrightarrow> bits ! n"
  by (metis filter_True id_apply length_filter_less nat_neq_iff nth_mem)

text \<open>When the counter reaches the count, every segment holds its part of the file.\<close>

lemma completed_all:
  assumes "segments_ok f cr" "is_completed cr" "n < seg_count cr"
  shows "completed_segments cr ! n" "segment_block cr n = map Some (file_block f n)"
proof -
  have "length (filter id (completed_segments cr)) = length (completed_segments cr)"
    using assms(1,2) by (simp add: segments_ok_def cr_ok_def is_completed_def seg_count_def)
  then show "completed_segments cr ! n"
    using all_True_of_count assms(1,3) by (simp add: segments_ok_def cr_ok_def)
  with assms(1,3) show "segment_block cr n = map Some (file_block f n)"
    by (simp add: segments_ok_def)
qed

lemma is_completed_all:
  assumes "segments_ok f cr"
  shows "is_completed cr \<longleftrightarrow> list_all id (completed_segments cr)"
proof -
  have "is_completed cr \<longleftrightarrow> length (filter id (completed_segments cr)) = length (completed_segments cr)"
    using assms unfolding is_completed_def word_unat_eq_iff
    by (simp add: segments_ok_def cr_ok_def seg_count_def)
  also have "\<dots> \<longleftrightarrow> filter id (completed_segments cr) = completed_segments cr"
    by (metis filter_True length_filter_less nat_neq_iff)
  finally show ?thesis by (simp add: filter_id_conv list_all_iff)
qed

lemma file_block_nth:
  assumes "n * SEGMENT_SIZE + k < length f" "k < SEGMENT_SIZE"
  shows "file_block f n ! k = f ! (n * SEGMENT_SIZE + k)"
proof -
  have "k < length (drop (n * SEGMENT_SIZE) f)" using assms(1) by simp
  then show ?thesis using assms by (simp add: file_block_def nth_append)
qed

lemma file_contents_complete:
  assumes "segments_ok f cr" "is_completed cr" "file_contents cr = Inr c"
    and len: "length f = unat (res_size (cr_resource cr))"
  shows "c = map Some f"
proof (rule nth_equalityI)
  have c: "c = take (length f) (cr_data cr)" "length f \<le> length (cr_data cr)"
    using assms(3) len by (auto simp: file_contents_def mem_range_def split: if_splits)
  then show "length c = length (map Some f)" by simp
  fix k assume "k < length c"
  then have k: "k < length f" using c by simp
  define n where "n = k div 1024"
  have kn: "k = n * 1024 + k mod 1024" by (simp add: n_def)
  have dl: "length (cr_data cr) = seg_count cr * 1024"
    using assms(1) by (simp add: segments_ok_def cr_ok_def)
  with k c(2) have "n < seg_count cr" by (simp add: n_def div_less_iff_less_mult)
  from completed_all(2) [OF assms(1,2) this]
  have "take 1024 (drop (n * 1024) (cr_data cr)) ! (k mod 1024) =
      map Some (file_block f n) ! (k mod 1024)"
    by (simp add: segment_block_def)
  moreover have "take 1024 (drop (n * 1024) (cr_data cr)) ! (k mod 1024) = cr_data cr ! k"
    using kn k c(2) by simp
  moreover have "map Some (file_block f n) ! (k mod 1024) = Some (f ! k)"
    using file_block_nth [of n "k mod 1024" f] kn k by (simp add: length_file_block)
  ultimately show "c ! k = map Some f ! k" using k c(1) by simp
qed

section \<open>Every step\<close>

lemma dl_inv_tick:
  assumes inv: "dl_inv r f s"
  shows "if may_fault (Tick now) s then tick_step now s = Inl OutOfBounds
    else \<exists>s'. tick_step now s = Inr s' \<and> dl_inv r f s'"
proof (cases "is_completed (ds_cr s)")
  case True
  have "length (cr_data (ds_cr s)) = seg_count (ds_cr s) * SEGMENT_SIZE"
    using inv by (simp add: dl_inv_def segments_ok_def cr_ok_def)
  with True have fc: "if may_fault (Tick now) s then file_contents (ds_cr s) = Inl OutOfBounds
      else \<exists>c. file_contents (ds_cr s) = Inr c"
    by (simp add: may_fault_def file_contents_def mem_range_def)
  show ?thesis
  proof (cases "may_fault (Tick now) s")
    case False
    with fc obtain c where c: "file_contents (ds_cr s) = Inr c" by auto
    then have "dl_inv r f (s\<lparr>ds_ctl := CtlStored, ds_stored := Some c\<rparr>)"
      using inv file_contents_complete [OF _ True c] by (auto simp: dl_inv_def)
    with False True c show ?thesis by (simp add: tick_step_def)
  qed (use fc True in \<open>simp add: tick_step_def\<close>)
next
  case False
  with inv show ?thesis by (simp add: tick_step_def dl_inv_def may_fault_def)
qed

lemma dl_inv_check_worker:
  assumes "dl_inv r f s" "check_worker_step now k j s = Some x"
    and "\<not> (j < length (ds_workers s) \<and> w_timeouted (ds_workers s ! j))"
  shows "\<exists>s'. x = Inr s' \<and> dl_inv r f s'"
proof (cases "j < length (ds_workers s)")
  case True
  let ?s = "s\<lparr>ds_workers := (ds_workers s)[j := (ds_workers s ! j)\<lparr>w_timeouted := True\<rparr>],
    ds_ctl := CtlCheck (Suc j)\<rparr>"
  have "x = Inr ?s" using True assms(2,3) by (auto simp: check_worker_step_def check_timeout_def)
  moreover have "dl_inv r f ?s"
    by (rule dl_inv_calmer [OF assms(1)]) (simp_all add: calmer_upd calmer_def)
  ultimately show ?thesis by blast
next
  case False
  with assms show ?thesis by (auto simp: check_worker_step_def dl_inv_def)
qed

lemma dl_inv_scan:
  assumes "dl_inv r f s" "i < length (ds_workers s)"
  shows "\<exists>s'. scan_step i s = Inr s' \<and> dl_inv r f s'"
proof -
  have cr: "cr_ok (ds_cr s)" using assms(1) by (simp add: dl_inv_def segments_ok_def)
  from cr show ?thesis
  proof (cases rule: get_segment_scan_cases)
    case (segment n)
    then have "n \<noteq> 65535" using seg_count_bound [of "ds_cr s"] by simp
    then have "(word_of_nat n :: SegmentId) \<noteq> NO_SEGMENT_ID"
      using unat_seg_id [OF segment(1)] by (metis unat_NO_SEGMENT_ID)
    then show ?thesis
      using segment dl_inv_assign [OF assms segment(1,2,3)] by (simp add: scan_step_def)
  next
    case wait
    then show ?thesis using dl_inv_set_pc [OF assms(1), of Waiting i] by (simp add: scan_step_def)
  qed
qed

lemma dl_inv_close: "dl_inv r f s \<Longrightarrow> dl_inv r f (upd_worker i close_worker s)"
  by (erule dl_inv_calmer) (simp_all add: upd_worker_def calmer_upd calmer_def close_worker_def)

lemma fire_dl_inv:
  assumes inv: "dl_inv r f s" and fired: "fire e s = Some x" and "no_timeout e s" "honest f e s"
  shows "if may_fault e s then x = Inl OutOfBounds else \<exists>s'. x = Inr s' \<and> dl_inv r f s'"
  using fired
proof (cases rule: fire_cases)
  case (moved i q p)
  then show ?thesis using dl_inv_set_pc [OF inv, of p i] by (auto simp: may_fault_def)
next
  case (scanned i)
  then show ?thesis using dl_inv_scan [OF inv] by (auto simp: at_pc_def may_fault_def)
next
  case (owned i n)
  then show ?thesis using dl_inv_own [OF inv] by (simp add: may_fault_def)
next
  case (received i bs n)
  with dl_inv_receive [OF inv received(2,3), of bs] assms(4) show ?thesis by (simp add: may_fault_def)
next
  case (failed i part k n)
  then show ?thesis using dl_inv_receive_failed [OF inv, of i n part k x] by (auto simp: may_fault_def)
next
  case (stored i n)
  with dl_inv_set_segment [OF inv stored(2,3)] show ?thesis by (simp add: may_fault_def)
next
  case (terminated i)
  then show ?thesis
    using dl_inv_calmer [OF inv, of "upd_worker i (\<lambda>w. w\<lparr>w_closed := True, w_pc := Failed\<rparr>) s"]
    by (simp add: upd_worker_def calmer_upd calmer_def may_fault_def)
next
  case (ticked now)
  then show ?thesis using dl_inv_tick [OF inv, of now] by (auto split: if_splits)
next
  case (checked now k j)
  then show ?thesis using assms(3) dl_inv_check_worker [OF inv] by (auto simp: may_fault_def)
next
  case (closed i)
  then show ?thesis
    using dl_inv_close [OF inv] by (simp add: may_fault_def)
qed

lemma run_dl_inv:
  assumes "run_under (\<lambda>e s. no_timeout e s \<and> honest f e s) s0 s" "dl_inv r f s0"
  shows "dl_inv r f s"
  using assms
proof (induction rule: run_under.induct)
  case (step s e s')
  then show ?case using fire_dl_inv [of r f s e "Inr s'"] by (auto split: if_splits)
qed


lemma run_under_no_timeout_inv:
  assumes "run_under (\<lambda>e s. no_timeout e s \<and> honest f e s)
    (init_download r hs (map DownloadWorker_new ps)) s"
  shows "dl_inv r f s"
  by (rule run_dl_inv [OF assms dl_inv_new])

section \<open>A download without timeouts\<close>

lemma run_events_mono:
  "run_events allowed es s = Some s' \<Longrightarrow> (\<And>e s. allowed e s \<Longrightarrow> allowed' e s) \<Longrightarrow> run_events allowed' es s = Some s'"
  by (induction es arbitrary: s) (auto split: option.splits sum.splits if_splits)

lemma run_events_run_under:
  "run_under allowed s0 s \<Longrightarrow> run_events allowed es s = Some s' \<Longrightarrow> run_under allowed s0 s'"
proof (induction es arbitrary: s)
  case (Cons e es)
  then obtain s1 where "allowed e s" "fire e s = Some (Inr s1)" "run_events allowed es s1 = Some s'"
    by (auto split: option.splits sum.splits if_splits)
  with Cons run_under.step [of allowed s0 s e s1] show ?case by auto
qed simp

lemmas run_schedule = run_events_run_under [OF run_under.start]

text \<open>C6: A download in which no timeout is charged and every complete reply is the requested
  segment of the file \<open>f\<close> stores \<open>f\<close>, octet by octet, or stores nothing: whatever the number
  of workers, the interleaving of their critical sections with the controlling thread, the
  workers that fail in the middle of a segment, and spurious wake-ups.\<close>

theorem download_correct:
  assumes "run_under (\<lambda>e s. no_timeout e s \<and> honest f e s)
      (init_download r hs (map DownloadWorker_new ps)) s"
    and "length f = unat (res_size r)" "ds_stored s = Some c"
  shows "c = map Some f"
  using run_under_no_timeout_inv [OF assms(1)] assms(2,3) by (simp add: dl_inv_def)

definition small_file :: "Uint8 list" where
  "small_file = [10, 20, 30, 40, 50]"

definition small_resource :: Resource where
  "small_resource = Resource_new ''small'' 5 default_path"

definition small_schedule :: "dl_event list" where
  "small_schedule = [Connected 0, Loop_Test 0, Get_Check 0, Get_Scan 0, Own 0,
     Receive 0 (file_block small_file 0), Set_Segment 0, Tick 0]"

lemmas small_evals = CompleteResource_new_def DownloadWorker_new_def Let_def at_pc_def set_pc_def
  upd_worker_def scan_step_def get_segment_scan_def segment_ids_def downloadable_def get_bit_def
  set_bit_def segment_at_def receive_step_def write_data_def memcpy_def set_segment_step_def
  set_segment_def is_completed_def tick_step_def file_contents_def mem_range_def file_block_def
  NO_SEGMENT_ID_def

lemma small_run:
  "\<exists>s. run_events (\<lambda>e s. no_timeout e s \<and> honest small_file e s) small_schedule
      (init_download small_resource (\<lambda>_. Host_new 0 (0 :: nat)) (map DownloadWorker_new [0])) = Some s \<and>
    ds_stored s \<noteq> None \<and> is_completed (ds_cr s)"
proof -
  have n: "calc_segments_count small_resource = 1" "res_size small_resource = 5"
    by (simp_all add: small_resource_def calc_segments_count_def Resource_new_def)
  show ?thesis
    by (simp add: small_schedule_def small_file_def init_download_def small_evals n)
qed

theorem download_correct_witness:
  "\<exists>s c. run_under (\<lambda>e s. no_timeout e s \<and> honest small_file e s)
      (init_download small_resource (\<lambda>_. Host_new 0 (0 :: nat)) (map DownloadWorker_new [0])) s \<and>
    ds_stored s = Some c \<and> c = map Some small_file"
proof -
  obtain s c where s: "run_events (\<lambda>e s. no_timeout e s \<and> honest small_file e s) small_schedule
      (init_download small_resource (\<lambda>_. Host_new 0 (0 :: nat)) (map DownloadWorker_new [0])) = Some s"
      "ds_stored s = Some c"
    using small_run by auto
  have "length small_file = unat (res_size small_resource)"
    by (simp add: small_file_def small_resource_def Resource_new_def)
  with s download_correct [OF run_schedule [OF s(1)]] show ?thesis
    using run_schedule [OF s(1)] by blast
qed

text \<open>C12: In such a download at most one worker works on a segment, the segment is marked busy
  and not completed, and the 16-bit counter is the number of completed segments, so the
  download counts as completed exactly when every segment is.\<close>

theorem download_exclusive:
  assumes "run_under (\<lambda>e s. no_timeout e s \<and> honest f e s)
      (init_download r hs (map DownloadWorker_new ps)) s"
  shows "(holding s i = Some n \<and> holding s j = Some n \<longrightarrow> i = j) \<and>
    (holding s i = Some n \<longrightarrow>
       busy_segments (ds_cr s) ! unat n \<and> \<not> completed_segments (ds_cr s) ! unat n) \<and>
    unat (completed_counter (ds_cr s)) = length (filter id (completed_segments (ds_cr s))) \<and>
    (is_completed (ds_cr s) \<longleftrightarrow> list_all id (completed_segments (ds_cr s)))"
proof -
  have inv: "segments_ok f (ds_cr s)" "workers_ok f (ds_cr s) (ds_workers s)"
    using run_under_no_timeout_inv [OF assms] by (simp_all add: dl_inv_def)
  have "holding s i = Some n \<and> holding s j = Some n \<longrightarrow> i = j"
    using inv(2) by (auto simp: workers_ok_def exclusive_def holding_def split: if_splits)
  moreover have "holding s i = Some n \<longrightarrow>
      busy_segments (ds_cr s) ! unat n \<and> \<not> completed_segments (ds_cr s) ! unat n"
    using inv(2) by (auto simp: workers_ok_def held_ok_def holding_def split: if_splits)
  ultimately show ?thesis
    using inv(1) is_completed_all [OF inv(1)] by (simp add: segments_ok_def)
qed

theorem download_exclusive_witness:
  "\<exists>s. run_under (\<lambda>e s. no_timeout e s \<and> honest small_file e s)
      (init_download small_resource (\<lambda>_. Host_new 0 (0 :: nat)) (map DownloadWorker_new [0])) s \<and>
    ds_stored s \<noteq> None \<and>
    (is_completed (ds_cr s) \<longleftrightarrow> list_all id (completed_segments (ds_cr s)))"
  using small_run download_exclusive [OF run_schedule] run_schedule by blast

text \<open>In such a download a step faults only when a worker loses its connection while it
  downloads a segment whose number exceeds the length of the literal of the error message, or
  when a completed resource of more than 65535 segments is stored; no other step of any
  thread touches memory outside the bitsets or the buffer.\<close>

lemma download_step_safe:
  assumes "run_under (\<lambda>e s. no_timeout e s \<and> honest f e s)
      (init_download r hs (map DownloadWorker_new ps)) s"
    and "no_timeout e s" "honest f e s" "fire e s = Some x"
  shows "x = Inl OutOfBounds \<and> may_fault e s \<or> (\<exists>s'. x = Inr s' \<and> \<not> may_fault e s)"
  using fire_dl_inv [OF run_under_no_timeout_inv [OF assms(1)] assms(4,2,3)]
  by (auto split: if_splits)

lemma download_step_safe_example:
  "\<exists>x. fire (Connected 0) (init_download small_resource (\<lambda>_. Host_new 0 (0 :: nat))
      (map DownloadWorker_new [0])) = Some x \<and> is_ok x"
proof -
  let ?s = "init_download small_resource (\<lambda>_. Host_new 0 (0 :: nat)) (map DownloadWorker_new [0])"
  have "fire (Connected 0) ?s = Some (Inr (set_pc 0 LoopHead ?s))"
    by (simp add: init_download_def at_pc_def DownloadWorker_new_def)
  from this download_step_safe [OF run_under.start _ _ this, of small_file] show ?thesis
    by (simp add: may_fault_def)
qed

end
