(* ===== verification/Download_Termination.thy ===== *)
theory Download_Termination
  imports Download_Invariant
begin

text \<open>
  The worker threads of a download come to rest. A potential bounds the steps they can still
  take: it counts the segments that are missing and how far each thread is from its end, and
  every step of a thread lowers it, also the steps that wake other threads. The potential
  falls only if no timeout is charged and no wake-up is spurious, since both give threads
  more work.
\<close>

section \<open>The potential\<close>

fun pot :: "thread_pc \<Rightarrow> nat" where
  "pot Failed = 0"
| "pot Finished = 0"
| "pot Failing = 1"
| "pot Waiting = 5"
| "pot (Storing n) = 7"
| "pot (Downloading n) = 8"
| "pot (Assigned n) = 9"
| "pot GetScan = 10"
| "pot GetCheck = 11"
| "pot LoopHead = 12"
| "pot Connecting = 13"

definition rank :: "DownloadWorker list \<Rightarrow> nat" where
  "rank ws = sum_list (map (\<lambda>w. pot (w_pc w)) ws)"

definition missing :: "CompleteResource \<Rightarrow> nat" where
  "missing cr = length (filter Not (completed_segments cr))"

definition potential :: "'ip dsys \<Rightarrow> nat" where
  "potential s = 6 * Suc (length (ds_workers s)) * missing (ds_cr s) + rank (ds_workers s)"

text \<open>Wake-ups that no notification caused.\<close>

fun not_spurious :: "dl_event \<Rightarrow> bool" where
  "not_spurious (Spurious i) = False"
| "not_spurious e = True"

section \<open>How steps change it\<close>

lemma rank_upd:
  "i < length ws \<Longrightarrow> rank (ws[i := w]) + pot (w_pc (ws ! i)) = rank ws + pot (w_pc w)"
proof (induction ws arbitrary: i)
  case (Cons v ws)
  then show ?case by (cases i) (auto simp: rank_def)
qed simp

lemma rank_woken: "list_all2 woken ws ws' \<Longrightarrow> rank ws' \<le> rank ws + 6 * length ws"
  by (induction rule: list_all2_induct) (auto simp: rank_def woken_def)

lemma rank_notify_one:
  assumes "notify_one k ws = Some ws'"
  shows "rank ws' \<le> rank ws + 6"
proof (cases "k < length ws \<and> w_pc (ws ! k) = Waiting")
  case True
  then have "ws' = ws[k := wake (ws ! k)]" using assms by (simp add: notify_one_def)
  then show ?thesis using True rank_upd [of k ws "wake (ws ! k)"] by (simp add: wake_def)
next
  case False
  then show ?thesis using assms by (auto simp: notify_one_def split: if_splits)
qed

lemma missing_set_True:
  "n < length bits \<Longrightarrow> \<not> bits ! n \<Longrightarrow>
   Suc (length (filter Not (bits[n := True]))) = length (filter Not bits)"
  by (induction bits arbitrary: n) (auto split: nat.splits simp: less_Suc_eq_0_disj)

lemma completed_write_data:
  "write_data seg bs cr = Inr cr' \<Longrightarrow> completed_segments cr' = completed_segments cr"
  by (auto simp: write_data_def bindE_Inr_iff)

lemma completed_unset_busy:
  "unset_busy n cr = Inr cr' \<Longrightarrow> completed_segments cr' = completed_segments cr"
  by (auto simp: unset_busy_def bindE_Inr_iff)

text \<open>One thread moves, the completed segments stay.\<close>

lemma potential_move:
  assumes "i < length (ds_workers s)" "pot (w_pc (f (ds_workers s ! i))) < pot (w_pc (ds_workers s ! i))"
    and "completed_segments cr = completed_segments (ds_cr s)"
  shows "potential (upd_worker i f (s\<lparr>ds_cr := cr\<rparr>)) < potential s"
  using rank_upd [OF assms(1), of "f (ds_workers s ! i)"] assms(2,3)
  by (simp add: potential_def upd_worker_def missing_def)

lemma potential_set_pc:
  assumes "at_pc s i q" "pot p < pot q" "completed_segments cr = completed_segments (ds_cr s)"
  shows "potential (set_pc i p (s\<lparr>ds_cr := cr\<rparr>)) < potential s"
  unfolding set_pc_def by (rule potential_move) (use assms in \<open>auto simp: at_pc_def\<close>)

lemma potential_pc:
  "at_pc s i q \<Longrightarrow> pot p < pot q \<Longrightarrow> potential (set_pc i p s) < potential s"
  using potential_set_pc [of s i q p "ds_cr s"] by simp

lemma potential_scan:
  assumes "cr_ok (ds_cr s)" "at_pc s i GetScan" "scan_step i s = Inr s'"
  shows "potential s' < potential s"
  using assms(1)
proof (cases rule: get_segment_scan_cases)
  case (segment n)
  then have "n \<noteq> 65535" using seg_count_bound [of "ds_cr s"] by simp
  then have "(word_of_nat n :: SegmentId) \<noteq> NO_SEGMENT_ID"
    using unat_seg_id [OF segment(1)] by (metis unat_NO_SEGMENT_ID)
  with segment assms(3) potential_set_pc [OF assms(2)] show ?thesis
    by (auto simp: scan_step_def)
next
  case wait
  with assms(3) potential_set_pc [OF assms(2), of Waiting "ds_cr s"] show ?thesis
    by (simp add: scan_step_def)
qed

lemma potential_receive_failed:
  assumes "i < length (ds_workers s)" "w_pc (ds_workers s ! i) = Downloading n"
    and "receive_failed_step i n part k s = Some (Inr s')"
  shows "potential s' < potential s"
proof -
  obtain cr1 cr ws where c: "write_data (segment_at n) part (ds_cr s) = Inr cr1"
      "unset_busy (owned_segment_id (ds_workers s ! i)) cr1 = Inr cr"
      and x: "notify_one k (ds_workers s) = Some ws"
      "s' = set_pc i Failing (s\<lparr>ds_cr := cr, ds_workers := ws\<rparr>)"
    using assms(3) by (auto simp: receive_failed_step_def bindE_Inr_iff split: sum.splits)
  have comp: "completed_segments cr = completed_segments (ds_cr s)"
    using completed_write_data [OF c(1)] completed_unset_busy [OF c(2)] by simp
  have len: "length ws = length (ds_workers s)"
    using notify_one_woken [OF x(1)] by (simp add: list_all2_lengthD)
  have "w_pc (ws ! i) = Downloading n"
    using woken_simps(3) [OF list_all2_nthD [OF notify_one_woken [OF x(1)] assms(1)]] assms(2) by simp
  with rank_upd [of i ws "(ws ! i)\<lparr>w_pc := Failing\<rparr>"] rank_notify_one [OF x(1)] assms(1) len x(2) comp
  show ?thesis by (simp add: potential_def set_pc_def upd_worker_def missing_def)
qed

lemma potential_set_segment:
  assumes inv: "dl_inv r f s" and i: "i < length (ds_workers s)"
    and pc: "w_pc (ds_workers s ! i) = Storing n" and s': "set_segment_step i n s = Inr s'"
  shows "potential s' < potential s"
proof -
  let ?cr = "ds_cr s" and ?ws = "ds_workers s"
  have cr: "cr_ok ?cr" "held_ok ?cr ?ws"
    using inv by (auto simp: dl_inv_def segments_ok_def workers_ok_def)
  then have n: "unat n < seg_count ?cr" "\<not> completed_segments ?cr ! unat n"
    using i pc unfolding held_ok_def by fastforce+
  obtain all cr' where cr': "set_segment n ?cr = Inr (all, cr')"
      "completed_segments cr' = (completed_segments ?cr)[unat n := True]"
    using set_segment_ok [OF cr(1) n(1)] by simp
  define ws1 where "ws1 = (if all then notify_all ?ws else ?ws)"
  have wk: "list_all2 woken ?ws ws1"
    using notify_all_woken [of ?ws] by (simp add: ws1_def list.rel_refl woken_refl)
  have len: "length ws1 = length ?ws" using wk by (simp add: list_all2_lengthD)
  have pc1: "w_pc (ws1 ! i) = Storing n"
    using woken_simps(2) [OF list_all2_nthD [OF wk i]] pc by simp
  have "Suc (missing cr') = missing ?cr"
    using missing_set_True [of "unat n" "completed_segments ?cr"] n cr(1) cr'(2)
    by (simp add: missing_def cr_ok_def)
  moreover have "s' = set_pc i LoopHead (s\<lparr>ds_cr := cr', ds_workers := ws1\<rparr>)"
    using s' cr'(1) by (simp add: set_segment_step_def ws1_def)
  moreover have "rank (ws1[i := (ws1 ! i)\<lparr>w_pc := LoopHead\<rparr>]) \<le> rank ?ws + 6 * length ?ws + 5"
    using rank_upd [of i ws1 "(ws1 ! i)\<lparr>w_pc := LoopHead\<rparr>"] i len pc1 rank_woken [OF wk] by simp
  ultimately show ?thesis
    using len by (simp add: potential_def set_pc_def upd_worker_def flip: \<open>Suc (missing cr') = _\<close>)
qed

text \<open>Steps of the controlling thread and the destructor leave every thread where it is.\<close>

lemma potential_quiet:
  assumes "map w_pc (ds_workers s') = map w_pc (ds_workers s)" "ds_cr s' = ds_cr s"
  shows "potential s' = potential s"
proof -
  have "map (pot \<circ> w_pc) (ds_workers s') = map (pot \<circ> w_pc) (ds_workers s)"
    using arg_cong [OF assms(1), of "map pot"] by simp
  then show ?thesis
    using assms(2) map_eq_imp_length_eq [OF assms(1)] by (simp add: potential_def rank_def o_def)
qed

lemma map_pc_upd:
  "w_pc w = w_pc (ws ! i) \<Longrightarrow> map w_pc (ws[i := w]) = map w_pc ws"
  by (metis list_update_id map_update)

lemma potential_check_worker:
  assumes "no_timeout (Check_Worker now k) s" "ds_ctl s = CtlCheck j" "check_worker_step now k j s = Some (Inr s')"
  shows "potential s' = potential s"
proof (rule potential_quiet)
  show "map w_pc (ds_workers s') = map w_pc (ds_workers s)" "ds_cr s' = ds_cr s"
    using assms by (auto simp: check_worker_step_def check_timeout_def map_pc_upd split: if_splits)
qed

lemma fire_potential:
  assumes inv: "dl_inv r f s" and fired: "fire e s = Some (Inr s')"
    and "no_timeout e s" "not_spurious e"
  shows "potential s' + (if worker_step e then 1 else 0) \<le> potential s"
  using fired
proof (cases rule: fire_cases)
  case (moved i q p)
  with assms(4) have "potential s' < potential s" by (auto intro!: potential_pc [of s i q p])
  with moved(1) show ?thesis by auto
next
  case (scanned i)
  have "cr_ok (ds_cr s)" using inv by (simp add: dl_inv_def segments_ok_def)
  with scanned potential_scan [of s i s'] show ?thesis by simp
next
  case (owned i n)
  with potential_move [of i s "\<lambda>w. w\<lparr>owned_segment_id := n, w_pc := Downloading n\<rparr>" "ds_cr s"]
  show ?thesis by simp
next
  case (received i bs n)
  then obtain cr where cr: "write_data (segment_at n) bs (ds_cr s) = Inr cr"
      "s' = upd_worker i (\<lambda>w. w\<lparr>w_timeouted := False, w_pc := Storing n\<rparr>) (s\<lparr>ds_cr := cr\<rparr>)"
    by (auto simp: receive_step_def bindE_Inr_iff)
  with received completed_write_data [OF cr(1)]
    potential_move [of i s "\<lambda>w. w\<lparr>w_timeouted := False, w_pc := Storing n\<rparr>" cr]
  show ?thesis by simp
next
  case (failed i part k n)
  with potential_receive_failed [OF failed(2,3,5)] show ?thesis by simp
next
  case (stored i n)
  with potential_set_segment [OF inv stored(2,3)] show ?thesis by simp
next
  case (terminated i)
  with potential_move [of i s "\<lambda>w. w\<lparr>w_closed := True, w_pc := Failed\<rparr>" "ds_cr s"]
  show ?thesis by (simp add: at_pc_def)
next
  case (ticked now)
  then have "ds_workers s' = ds_workers s" "ds_cr s' = ds_cr s"
    by (auto simp: tick_step_def bindE_Inr_iff split: if_splits)
  with ticked potential_quiet [of s' s] show ?thesis by simp
next
  case (checked now k j)
  with potential_check_worker [of now k s j s'] assms(3) show ?thesis by simp
next
  case (closed i)
  then have "ds_cr s' = ds_cr s" "map w_pc (ds_workers s') = map w_pc (ds_workers s)"
    by (simp_all add: upd_worker_def close_worker_def map_pc_upd)
  with closed potential_quiet [of s' s] show ?thesis by simp
qed

lemma run_potential:
  assumes "dl_inv r f s"
    and "run_events (\<lambda>e s. no_timeout e s \<and> honest f e s \<and> not_spurious e) es s = Some s'"
  shows "dl_inv r f s' \<and> potential s' + length (filter worker_step es) \<le> potential s"
  using assms
proof (induction es arbitrary: s)
  case (Cons e es)
  then obtain s1 where s1: "fire e s = Some (Inr s1)" "no_timeout e s" "honest f e s" "not_spurious e"
      "run_events (\<lambda>e s. no_timeout e s \<and> honest f e s \<and> not_spurious e) es s1 = Some s'"
    by (auto split: option.splits sum.splits if_splits)
  have "dl_inv r f s1" using fire_dl_inv [OF Cons.prems(1) s1(1-3)] by (auto split: if_splits)
  with Cons.IH [OF this s1(5)] fire_potential [OF Cons.prems(1) s1(1,2,4)] show ?case by auto
qed simp

text \<open>A thread that has not come to rest can take a step.\<close>

definition at_rest :: "thread_pc \<Rightarrow> bool" where
  "at_rest p \<longleftrightarrow> p = Waiting \<or> p = Finished \<or> p = Failed"

lemma can_step:
  assumes "i < length (ds_workers s)" "\<not> at_rest (w_pc (ds_workers s ! i))"
  shows "\<exists>e. worker_step e \<and> fire e s \<noteq> None"
proof (cases "w_pc (ds_workers s ! i)")
  case Connecting
  then show ?thesis using assms(1) by (intro exI [of _ "Connected i"]) (simp add: at_pc_def)
next
  case LoopHead
  then show ?thesis using assms(1) by (intro exI [of _ "Loop_Test i"]) (simp add: at_pc_def)
next
  case GetCheck
  then show ?thesis using assms(1) by (intro exI [of _ "Get_Check i"]) (simp add: at_pc_def)
next
  case GetScan
  then show ?thesis using assms(1) by (intro exI [of _ "Get_Scan i"]) (simp add: at_pc_def)
next
  case (Assigned n)
  then show ?thesis using assms(1) by (intro exI [of _ "Own i"]) simp
next
  case (Downloading n)
  then show ?thesis
    using assms(1) by (intro exI [of _ "Receive i (replicate 1024 0)"]) simp
next
  case (Storing n)
  then show ?thesis using assms(1) by (intro exI [of _ "Set_Segment i"]) simp
next
  case Failing
  then show ?thesis using assms(1) by (intro exI [of _ "Terminate i"]) (simp add: at_pc_def)
qed (use assms(2) in \<open>simp_all add: at_rest_def\<close>)

section \<open>Termination\<close>

text \<open>C10: The threads of a download come to rest: without timeouts and spurious wake-ups, in
  every interleaving with the controlling thread, the workers take together at most a number
  of steps that is bounded by the number of workers and of segments, and as long as one of
  them is neither waiting nor at its end, some worker can take a step. So connections that
  fail, segments that are handed back and wake-ups by other workers never make the workers
  run for ever.\<close>

theorem workers_come_to_rest:
  assumes "run_events (\<lambda>e s. no_timeout e s \<and> honest f e s \<and> not_spurious e) es
      (init_download r hs (map DownloadWorker_new ps)) = Some s"
  shows "length (filter worker_step es) \<le>
      6 * Suc (length ps) * unat (calc_segments_count r) + 13 * length ps \<and>
    (\<forall>i. i < length (ds_workers s) \<and> \<not> at_rest (w_pc (ds_workers s ! i)) \<longrightarrow>
       (\<exists>e. worker_step e \<and> fire e s \<noteq> None))"
proof -
  let ?s0 = "init_download r hs (map DownloadWorker_new ps)"
  from run_potential [OF dl_inv_new assms] have "length (filter worker_step es) \<le> potential ?s0" by simp
  moreover have "rank (map DownloadWorker_new ps) = 13 * length ps"
    by (induction ps) (simp_all add: rank_def DownloadWorker_new_def)
  then have "potential ?s0 = 6 * Suc (length ps) * unat (calc_segments_count r) + 13 * length ps"
    by (simp add: potential_def init_download_def missing_def CompleteResource_new_def Let_def)
  ultimately show ?thesis using can_step by auto
qed

theorem workers_come_to_rest_witness:
  "\<exists>s. run_events (\<lambda>e s. no_timeout e s \<and> honest small_file e s \<and> not_spurious e) small_schedule
      (init_download small_resource (\<lambda>_. Host_new 0 (0 :: nat)) (map DownloadWorker_new [0])) = Some s \<and>
    length (filter worker_step small_schedule) \<le> 25"
proof -
  have n: "calc_segments_count small_resource = 1" "res_size small_resource = 5"
    by (simp_all add: small_resource_def calc_segments_count_def Resource_new_def)
  have "\<exists>s. run_events (\<lambda>e s. no_timeout e s \<and> honest small_file e s \<and> not_spurious e) small_schedule
      (init_download small_resource (\<lambda>_. Host_new 0 (0 :: nat)) (map DownloadWorker_new [0])) = Some s"
    by (simp add: small_schedule_def small_file_def init_download_def small_evals n)
  then obtain s where s: "run_events (\<lambda>e s. no_timeout e s \<and> honest small_file e s \<and> not_spurious e)
      small_schedule (init_download small_resource (\<lambda>_. Host_new 0 (0 :: nat))
        (map DownloadWorker_new [0])) = Some s"
    by blast
  from workers_come_to_rest [OF this, THEN conjunct1] s n(1) show ?thesis by auto
qed

end
