(* ===== verification/Download_Progress.thy ===== *)
theory Download_Progress
  imports Download_Invariant
begin

text \<open>
  A download can always finish: any worker that gets connected and is served fetches one
  segment after the other until the controlling thread stores the file.
\<close>

section \<open>One worker on its own\<close>

definition moved :: "nat \<Rightarrow> thread_pc \<Rightarrow> CompleteResource \<Rightarrow> 'ip dsys \<Rightarrow> bool" where
  "moved i p cr s \<longleftrightarrow> at_pc s i p \<and> \<not> w_closed (ds_workers s ! i) \<and> ds_ctl s = CtlWait \<and> ds_cr s = cr"

lemma moved_set_pc:
  assumes "moved i p cr s" "ds_cr s' = cr'" "ds_ctl s' = ds_ctl s"
    "length (ds_workers s') = length (ds_workers s)"
    "w_closed (ds_workers s' ! i) = w_closed (ds_workers s ! i)"
  shows "moved i q cr' (set_pc i q s')"
  using assms by (simp add: moved_def at_pc_def set_pc_def upd_worker_def)

lemma moved_Loop_Test:
  "moved i LoopHead cr s \<Longrightarrow> \<exists>s'. fire (Loop_Test i) s = Some (Inr s') \<and> moved i GetCheck cr s'"
  using moved_set_pc [of i LoopHead cr s s cr GetCheck] by (simp add: moved_def)

lemma moved_Get_Check:
  "moved i GetCheck cr s \<Longrightarrow> \<not> is_completed cr \<Longrightarrow>
   \<exists>s'. fire (Get_Check i) s = Some (Inr s') \<and> moved i GetScan cr s'"
  using moved_set_pc [of i GetCheck cr s s cr GetScan] by (simp add: moved_def)

lemma moved_Get_Scan:
  assumes "moved i GetScan cr s" "cr_ok cr" "k < seg_count cr"
    "\<not> busy_segments cr ! k" "\<not> completed_segments cr ! k"
  shows "\<exists>n s'. fire (Get_Scan i) s = Some (Inr s') \<and> n < seg_count cr \<and>
    \<not> completed_segments cr ! n \<and>
    moved i (Assigned (word_of_nat n)) (cr\<lparr>busy_segments := (busy_segments cr)[n := True]\<rparr>) s'"
  using assms(2)
proof (cases rule: get_segment_scan_cases)
  case (segment n)
  then have "n \<noteq> 65535" using seg_count_bound [of cr] by simp
  then have "(word_of_nat n :: SegmentId) \<noteq> NO_SEGMENT_ID"
    using unat_seg_id [OF segment(1)] by (metis unat_NO_SEGMENT_ID)
  moreover let ?s = "s\<lparr>ds_cr := cr\<lparr>busy_segments := (busy_segments cr)[n := True]\<rparr>\<rparr>"
  have "moved i (Assigned (word_of_nat n)) (cr\<lparr>busy_segments := (busy_segments cr)[n := True]\<rparr>)
      (set_pc i (Assigned (word_of_nat n)) ?s)"
    by (rule moved_set_pc [OF assms(1)]) simp_all
  ultimately show ?thesis
    using segment assms(1) by (auto simp: moved_def scan_step_def)
next
  case wait
  with assms(3-5) show ?thesis by blast
qed

lemma moved_Own:
  "moved i (Assigned n) cr s \<Longrightarrow>
   \<exists>s'. fire (Own i) s = Some (Inr s') \<and> moved i (Downloading n) cr s'"
  by (auto simp: moved_def at_pc_def upd_worker_def)

lemma moved_Receive:
  assumes "moved i (Downloading n) cr s" "cr_ok cr" "unat n < seg_count cr" "length bs = SEGMENT_SIZE"
  shows "\<exists>s' cr'. fire (Receive i bs) s = Some (Inr s') \<and> moved i (Storing n) cr' s' \<and> cr_ok cr' \<and>
    cr_resource cr' = cr_resource cr \<and> busy_segments cr' = busy_segments cr \<and>
    completed_segments cr' = completed_segments cr"
proof -
  obtain cr' where cr': "write_data (segment_at n) bs cr = Inr cr'" "cr_ok cr'"
    "cr_resource cr' = cr_resource cr" "busy_segments cr' = busy_segments cr"
    "completed_segments cr' = completed_segments cr"
    using write_block [OF assms(2,3), of bs] assms(4) by (metis order_refl)
  then show ?thesis
    using assms(1,4) by (auto simp: moved_def at_pc_def receive_step_def upd_worker_def)
qed

lemma moved_Set_Segment:
  assumes "moved i (Storing n) cr s" "cr_ok cr" "unat n < seg_count cr"
  shows "\<exists>s' cr'. fire (Set_Segment i) s = Some (Inr s') \<and> moved i LoopHead cr' s' \<and>
    busy_segments cr' = (busy_segments cr)[unat n := False] \<and>
    completed_segments cr' = (completed_segments cr)[unat n := True]"
proof -
  let ?cr = "cr\<lparr>busy_segments := (busy_segments cr)[unat n := False],
    completed_segments := (completed_segments cr)[unat n := True],
    completed_counter := completed_counter cr + 1\<rparr>"
  define all where "all = (completed_counter cr + 1 = calc_segments_count (cr_resource cr))"
  let ?s = "s\<lparr>ds_cr := ?cr, ds_workers := (if all then notify_all (ds_workers s) else ds_workers s)\<rparr>"
  have "set_segment n cr = Inr (all, ?cr)"
    using set_segment_ok [OF assms(2,3)] by (simp add: all_def)
  then have "fire (Set_Segment i) s = Some (Inr (set_pc i LoopHead ?s))"
    using assms(1) by (simp add: moved_def at_pc_def set_segment_step_def)
  moreover have "moved i LoopHead ?cr (set_pc i LoopHead ?s)"
    by (rule moved_set_pc [OF assms(1)])
      (use assms(1) in \<open>simp_all add: notify_all_def wake_def moved_def at_pc_def\<close>)
  ultimately show ?thesis by fastforce
qed

text \<open>Only worker threads move, and honest replies arrive.\<close>

definition quiet :: "Uint8 list \<Rightarrow> dl_event \<Rightarrow> 'ip dsys \<Rightarrow> bool" where
  "quiet f e s \<longleftrightarrow> worker_step e \<and> honest f e s"

lemma quiet_no_timeout: "quiet f e s \<Longrightarrow> no_timeout e s \<and> honest f e s"
  by (cases e) (simp_all add: quiet_def)

lemma quiet_schedule:
  "run_events (quiet f) es s = Some s' \<Longrightarrow> run_events (\<lambda>e s. no_timeout e s \<and> honest f e s) es s = Some s'"
  by (erule run_events_mono) (rule quiet_no_timeout)

lemma quiet_dl_inv:
  "run_events (quiet f) es s = Some s' \<Longrightarrow> dl_inv r f s \<Longrightarrow> dl_inv r f s'"
  by (rule run_dl_inv [OF run_schedule [OF quiet_schedule]])

lemma fetch_one:
  assumes inv: "dl_inv r f s" and m: "moved i LoopHead cr s"
    and idle: "list_all Not (busy_segments cr)" and more: "\<not> is_completed cr"
  shows "\<exists>es s' cr'. run_events (quiet f) es s = Some s' \<and>
    moved i LoopHead cr' s' \<and> list_all Not (busy_segments cr') \<and>
    length (filter id (completed_segments cr')) = Suc (length (filter id (completed_segments cr)))"
proof -
  have ok: "segments_ok f cr" "cr_ok cr"
    using inv m by (simp_all add: dl_inv_def moved_def segments_ok_def)
  have len: "length (busy_segments cr) = seg_count cr" "length (completed_segments cr) = seg_count cr"
    using ok(2) by (simp_all add: cr_ok_def)
  obtain k where k: "k < seg_count cr" "\<not> completed_segments cr ! k" "\<not> busy_segments cr ! k"
    using more idle len by (auto simp: is_completed_all [OF ok(1)] list_all_length)
  obtain s1 where s1: "fire (Loop_Test i) s = Some (Inr s1)" "moved i GetCheck cr s1"
    using moved_Loop_Test [OF m] by blast
  obtain s2 where s2: "fire (Get_Check i) s1 = Some (Inr s2)" "moved i GetScan cr s2"
    using moved_Get_Check [OF s1(2) more] by blast
  let ?cr = "\<lambda>n. cr\<lparr>busy_segments := (busy_segments cr)[n := True]\<rparr>"
  obtain s3 n where s3: "fire (Get_Scan i) s2 = Some (Inr s3)" "n < seg_count cr"
      "\<not> completed_segments cr ! n" "moved i (Assigned (word_of_nat n)) (?cr n) s3"
    using moved_Get_Scan [OF s2(2) ok(2) k(1,3,2)] by blast
  define w :: SegmentId where "w = word_of_nat n"
  have w: "unat w = n" using unat_seg_id [OF s3(2)] by (simp add: w_def)
  obtain s4 where s4: "fire (Own i) s3 = Some (Inr s4)" "moved i (Downloading w) (?cr n) s4"
    using moved_Own [OF s3(4)] by (auto simp: w_def)
  have n: "cr_ok (?cr n)" "unat w < seg_count (?cr n)"
    using ok(2) s3(2) w by (simp_all add: cr_ok_def seg_count_def)
  obtain s5 cr5 where s5: "fire (Receive i (file_block f n)) s4 = Some (Inr s5)"
      "moved i (Storing w) cr5 s5" "cr_ok cr5" "cr_resource cr5 = cr_resource cr"
      "busy_segments cr5 = (busy_segments cr)[n := True]"
      "completed_segments cr5 = completed_segments cr"
    using moved_Receive [OF s4(2) n, of "file_block f n"] by (auto simp: length_file_block)
  have "unat w < seg_count cr5" using s5(4) s3(2) w by (simp add: seg_count_def)
  then obtain s6 cr6 where s6: "fire (Set_Segment i) s5 = Some (Inr s6)" "moved i LoopHead cr6 s6"
      "busy_segments cr6 = (busy_segments cr)[n := False]"
      "completed_segments cr6 = (completed_segments cr)[n := True]"
    using moved_Set_Segment [OF s5(2,3)] s5(5,6) w by auto
  have "honest f (Receive i (file_block f n)) s4"
    using s4(2) w by (simp add: moved_def at_pc_def)
  then have "run_events (quiet f)
      [Loop_Test i, Get_Check i, Get_Scan i, Own i, Receive i (file_block f n), Set_Segment i] s = Some s6"
    using s1(1) s2(1) s3(1) s4(1) s5(1) s6(1) by (simp add: quiet_def del: fire.simps honest.simps(1))
  moreover have "list_all Not (busy_segments cr6)"
    using idle s6(3) set_update_subset_insert [of "busy_segments cr" n False]
    by (auto simp: list_all_iff)
  moreover have "length (filter id (completed_segments cr6)) =
      Suc (length (filter id (completed_segments cr)))"
    using s6(4) s3(2,3) len(2) by (simp add: length_filter_set_True)
  ultimately show ?thesis using s6(2) by blast
qed

lemma run_events_append:
  assumes "run_events allowed es s = Some s'"
  shows "run_events allowed (es @ es') s = run_events allowed es' s'"
  using assms by (induction es arbitrary: s) (auto split: option.splits sum.splits if_splits)

text \<open>The rest of the segments, by induction on their number.\<close>

lemma fetch_rest:
  assumes "dl_inv r f s" "moved i LoopHead cr s" "list_all Not (busy_segments cr)"
  shows "\<exists>es s' cr'. run_events (quiet f) es s = Some s' \<and>
    moved i LoopHead cr' s' \<and> is_completed cr'"
  using assms
proof (induction "seg_count cr - length (filter id (completed_segments cr))"
    arbitrary: s cr rule: less_induct)
  case less
  show ?case
  proof (cases "is_completed cr")
    case True
    have "run_events (quiet f) [] s = Some s" by simp
    with True less.prems(2) show ?thesis by blast
  next
    case False
    from fetch_one [OF less.prems False] obtain es s1 cr1
      where 1: "run_events (quiet f) es s = Some s1"
        "moved i LoopHead cr1 s1" "list_all Not (busy_segments cr1)"
        "length (filter id (completed_segments cr1)) = Suc (length (filter id (completed_segments cr)))"
      by blast
    have inv: "dl_inv r f s1"
      by (rule quiet_dl_inv [OF 1(1) less.prems(1)])
    have "cr_resource cr1 = r" "cr_resource cr = r" "cr_ok cr1"
      using inv less.prems(1,2) 1(2) by (simp_all add: dl_inv_def moved_def segments_ok_def)
    then have "seg_count cr1 = seg_count cr" "length (filter id (completed_segments cr1)) \<le> seg_count cr1"
      using length_filter_le [of id "completed_segments cr1"] by (simp_all add: seg_count_def cr_ok_def)
    with 1(4) have "seg_count cr1 - length (filter id (completed_segments cr1)) <
        seg_count cr - length (filter id (completed_segments cr))" by linarith
    from less.hyps [OF this inv 1(2,3)] obtain es' s' cr'
      where "run_events (quiet f) es' s1 = Some s'"
        "moved i LoopHead cr' s'" "is_completed cr'" by blast
    then show ?thesis using run_events_append [OF 1(1), of es'] by fastforce
  qed
qed

section \<open>Completion is possible\<close>

lemma length_file_contents:
  assumes "cr_ok cr" "unat (res_size (cr_resource cr)) \<le> seg_count cr * SEGMENT_SIZE"
  shows "\<exists>c. file_contents cr = Inr c"
  using assms by (simp add: file_contents_def mem_range_def cr_ok_def)

lemma completed_file:
  assumes "segments_ok f cr" "is_completed cr" "unat (res_size (cr_resource cr)) \<le> 65535 * SEGMENT_SIZE"
    and "length f = unat (res_size (cr_resource cr))"
  shows "file_contents cr = Inr (map Some f)"
proof -
  have "cr_ok cr" using assms(1) by (simp add: segments_ok_def)
  moreover have "unat (res_size (cr_resource cr)) \<le> seg_count cr * SEGMENT_SIZE"
    using segments_cover [OF assms(3)] by (simp add: seg_count_def)
  ultimately obtain c where c: "file_contents cr = Inr c" using length_file_contents by blast
  from file_contents_complete [OF assms(1,2) c assms(4)] c show ?thesis by simp
qed

lemma fetches:
  assumes "i < length ps" "length f = unat (res_size r)" "length f \<le> 65535 * SEGMENT_SIZE"
  shows "\<exists>es s. run_events (quiet f) es (init_download r hs (map DownloadWorker_new ps)) = Some s \<and>
    is_completed (ds_cr s)"
proof -
  let ?s = "init_download r hs (map DownloadWorker_new ps)"
  let ?s1 = "set_pc i LoopHead ?s"
  have s1: "run_events (quiet f) [Connected i] ?s = Some ?s1"
    using assms(1) by (simp add: quiet_def init_download_def at_pc_def DownloadWorker_new_def)
  have m1: "moved i LoopHead (CompleteResource_new r) ?s1"
    using assms(1) by (simp add: moved_def init_download_def set_pc_def upd_worker_def at_pc_def
        DownloadWorker_new_def)
  have inv1: "dl_inv r f ?s1" by (rule dl_inv_set_pc [OF dl_inv_new]) simp
  have "list_all Not (busy_segments (CompleteResource_new r))" by (simp add: list_all_iff)
  from fetch_rest [OF inv1 m1 this] obtain es s2 cr2 where s2: "run_events (quiet f) es ?s1 = Some s2"
      "moved i LoopHead cr2 s2" "is_completed cr2" by blast
  then have "run_events (quiet f) ([Connected i] @ es) ?s = Some s2" "is_completed (ds_cr s2)"
    using run_events_append [OF s1, of es] by (simp_all add: moved_def)
  then show ?thesis by blast
qed

lemma quiet_ctl:
  "run_events (quiet f) es s = Some s' \<Longrightarrow> ds_ctl s' = ds_ctl s"
  by (induction es arbitrary: s)
    (auto simp: quiet_def dest: worker_step_frame split: option.splits sum.splits if_splits)

lemma completes:
  assumes "i < length ps" "length f = unat (res_size r)" "length f \<le> 65535 * SEGMENT_SIZE"
  shows "\<exists>es s. run_events (\<lambda>e s. no_timeout e s \<and> honest f e s) es
      (init_download r hs (map DownloadWorker_new ps)) = Some s \<and> ds_stored s = Some (map Some f) \<and> is_completed (ds_cr s)"
proof -
  let ?s = "init_download r hs (map DownloadWorker_new ps)"
  obtain es s where s: "run_events (quiet f) es ?s = Some s" "is_completed (ds_cr s)"
    using fetches [OF assms] by blast
  then have ctl: "ds_ctl s = CtlWait" using quiet_ctl by (fastforce simp: init_download_def)
  have "dl_inv r f s" by (rule quiet_dl_inv [OF s(1) dl_inv_new])
  then have cr: "cr_resource (ds_cr s) = r" "segments_ok f (ds_cr s)" "cr_ok (ds_cr s)"
    by (simp_all add: dl_inv_def segments_ok_def)
  have fc: "file_contents (ds_cr s) = Inr (map Some f)"
    by (rule completed_file [OF cr(2) s(2)]) (use assms(2,3) cr(1) in simp_all)
  let ?s' = "s\<lparr>ds_ctl := CtlStored, ds_stored := Some (map Some f)\<rparr>"
  have "run_events (\<lambda>e s. no_timeout e s \<and> honest f e s) [Tick 0] s = Some ?s'"
    using ctl s(2) fc by (simp add: tick_step_def)
  then have "run_events (\<lambda>e s. no_timeout e s \<and> honest f e s) (es @ [Tick 0]) ?s = Some ?s'"
    using run_events_append [OF quiet_schedule [OF s(1)]] by simp
  with s(2) show ?thesis by fastforce
qed

text \<open>Whatever the number of workers, there is a schedule without timeouts on which one
  of them, whose host answers, fetches every segment and the controlling thread stores the
  file: a download of a file of at most 65535 segments can complete, with the file as its
  result.\<close>

lemma download_can_complete:
  assumes "i < length ps" "length f = unat (res_size r)" "length f \<le> 65535 * SEGMENT_SIZE"
  shows "\<exists>es s. run_events (\<lambda>e s. no_timeout e s \<and> honest f e s) es
      (init_download r hs (map DownloadWorker_new ps)) = Some s \<and> ds_stored s = Some (map Some f)"
  using completes [OF assms] by blast

lemma download_can_complete_example:
  "\<exists>es s. run_events (\<lambda>e s. no_timeout e s \<and> honest (replicate 5000 3) e s) es
      (init_download (Resource_new ''f'' 5000 default_path) (\<lambda>_. Host_new 0 (0 :: nat))
        (map DownloadWorker_new [0, 1])) = Some s \<and>
    ds_stored s = Some (map Some (replicate 5000 3))"
  by (rule download_can_complete [of 1]) (simp_all add: Resource_new_def)

end
