(* ===== verification/File_Manager.thy ===== *)
theory File_Manager
  imports Download_System
begin

text \<open>
  \<^verbatim>\<open>include/FileManager.h\<close>, \<^verbatim>\<open>src/FileManager.cpp\<close>: reading segments of local files and storing
  downloaded ones, with a table of files open for reading (which are read-locked) and a table of
  write-locked names. The disk maps names to contents. An \<open>std::ifstream\<close> is its open flag, its
  \<open>eofbit\<close> and \<open>failbit\<close> and its position, with the standard's rules: \<open>seekg\<close> clears
  \<open>eofbit\<close> but does nothing to a failed stream, \<open>tellg\<close> of a failed stream is -1, and a
  \<open>read\<close> that meets the end sets both bits. A call that must wait on \<open>condv\<close> is \<open>None\<close>.
\<close>

section \<open>Streams\<close>

record ifstream =
  is_open :: bool
  eofbit :: bool
  failbit :: bool
  gpos :: nat

type_synonym disk = "string \<Rightarrow> Uint8 list option"

definition open_stream :: "disk \<Rightarrow> string \<Rightarrow> ifstream" where
  "open_stream d name =
     (case d name of
        Some _ \<Rightarrow> \<lparr>is_open = True, eofbit = False, failbit = False, gpos = 0\<rparr>
      | None \<Rightarrow> \<lparr>is_open = False, eofbit = False, failbit = True, gpos = 0\<rparr>)"

definition seekg :: "nat \<Rightarrow> ifstream \<Rightarrow> ifstream" where
  "seekg p st =
     (let st = st\<lparr>eofbit := False\<rparr>
      in if failbit st then st else st\<lparr>gpos := p\<rparr>)"

definition tellg :: "ifstream \<Rightarrow> int" where
  "tellg st = (if failbit st then - 1 else int (gpos st))"

text \<open>\<open>read\<close>: the octets extracted, and the stream after.\<close>

definition read_stream :: "Uint8 list \<Rightarrow> nat \<Rightarrow> ifstream \<Rightarrow> Uint8 list \<times> ifstream" where
  "read_stream contents n st =
     (if failbit st \<or> eofbit st then ([], st\<lparr>failbit := True\<rparr>)
      else let bs = take n (drop (gpos st) contents);
               st = st\<lparr>gpos := gpos st + length bs\<rparr>
           in (bs, if length bs < n then st\<lparr>eofbit := True, failbit := True\<rparr> else st))"

section \<open>The class\<close>

record OpenFile =
  file_name :: string
  stream :: ifstream

record FileManager =
  rlocked_files :: "OpenFile list"
  wlocked_files :: "string list"
  fm_disk :: disk

definition FileManager_new :: "disk \<Rightarrow> FileManager" where
  "FileManager_new d = \<lparr>rlocked_files = [], wlocked_files = [], fm_disk = d\<rparr>"

text \<open>The destructor frees the open files and empties both tables.\<close>

definition FileManager_delete :: "FileManager \<Rightarrow> FileManager" where
  "FileManager_delete fm = fm\<lparr>rlocked_files := [], wlocked_files := []\<rparr>"

text \<open>The loops that look for the first entry of a name; \<open>file_ptr\<close> points to it.\<close>

definition find_open :: "string \<Rightarrow> FileManager \<Rightarrow> OpenFile option" where
  "find_open name fm = find (\<lambda>f. file_name f = name) (rlocked_files fm)"

fun upd_first :: "('a \<Rightarrow> bool) \<Rightarrow> ('a \<Rightarrow> 'a) \<Rightarrow> 'a list \<Rightarrow> 'a list" where
  "upd_first p g [] = []"
| "upd_first p g (x # xs) = (if p x then g x # xs else x # upd_first p g xs)"

definition set_stream :: "string \<Rightarrow> ifstream \<Rightarrow> FileManager \<Rightarrow> FileManager" where
  "set_stream name st fm =
     fm\<lparr>rlocked_files :=
          upd_first (\<lambda>f. file_name f = name) (\<lambda>f. f\<lparr>stream := st\<rparr>) (rlocked_files fm)\<rparr>"

text \<open>
  \<open>get_segment\<close>. The result buffer is \<open>None\<close> for the null pointer; its octets are
  \<open>None\<close> until written. \<open>file_ptr\<close> has no initial value, so a name that is not in the
  table is a fault.
\<close>

definition get_segment ::
    "string \<Rightarrow> Uint16 \<Rightarrow> Uint8 option list option \<Rightarrow> nat \<Rightarrow> FileManager \<Rightarrow>
     (bool \<times> Uint8 option list option \<times> FileManager) result" where
  "get_segment name segment buf requested_segment_size fm =
     (case buf of
        None \<Rightarrow> Inr (False, buf, fm)
      | Some data \<Rightarrow>
          if requested_segment_size > SEGMENT_SIZE then Inr (False, buf, fm)
          else bindE (of_option Uninitialised (find_open name fm)) (\<lambda>file_ptr.
            if \<not> is_open (stream file_ptr) then Inr (False, buf, fm)
            else
              let pos = unat segment * SEGMENT_SIZE;
                  st = seekg pos (stream file_ptr)
              in if tellg st \<noteq> int pos then Inr (False, buf, set_stream name st fm)
                 else
                   let (bs, st) = read_stream (case fm_disk fm name of Some c \<Rightarrow> c | None \<Rightarrow> [])
                                    requested_segment_size st;
                       fm = set_stream name st fm
                   in bindE (memcpy data 0 (map Some bs)) (\<lambda>data.
                        if failbit st \<and> \<not> (eofbit st \<and> \<not> failbit st)
                        then Inr (False, Some data, fm)
                        else if requested_segment_size < SEGMENT_SIZE
                        then bindE (memcpy data requested_segment_size
                                      (replicate (SEGMENT_SIZE - requested_segment_size) (Some 0)))
                               (\<lambda>data. Inr (True, Some data, fm))
                        else Inr (True, Some data, fm))))"

text \<open>
  \<open>read_lock\<close>: the wait for the write lock under \<open>wlmutex\<close>, then the table of open files
  under \<open>rlmutex\<close>; the two sections are separate.
\<close>

definition read_lock_check :: "string \<Rightarrow> FileManager \<Rightarrow> bool" where
  "read_lock_check name fm = (\<not> list_ex (\<lambda>wlocked. wlocked = name) (wlocked_files fm))"

definition read_lock_open :: "string \<Rightarrow> FileManager \<Rightarrow> bool \<times> FileManager" where
  "read_lock_open name fm =
     (if find_open name fm \<noteq> None then (True, fm)
      else let st = open_stream (fm_disk fm) name
           in if failbit st then (False, fm)
              else (True, fm\<lparr>rlocked_files := rlocked_files fm @ [\<lparr>file_name = name, stream = st\<rparr>]\<rparr>))"

definition read_lock :: "string \<Rightarrow> FileManager \<Rightarrow> (bool \<times> FileManager) option" where
  "read_lock name fm = (if read_lock_check name fm then Some (read_lock_open name fm) else None)"

text \<open>
  \<open>read_unlock\<close>: the loop erases the entry and then increments the erased iterator.
\<close>

fun read_unlock_loop :: "string \<Rightarrow> OpenFile list \<Rightarrow> OpenFile list result" where
  "read_unlock_loop name [] = Inr []"
| "read_unlock_loop name (f # fs) =
     (if name = file_name f then Inl InvalidIterator
      else bindE (read_unlock_loop name fs) (\<lambda>fs. Inr (f # fs)))"

definition read_unlock :: "string \<Rightarrow> FileManager \<Rightarrow> FileManager result" where
  "read_unlock name fm =
     bindE (read_unlock_loop name (rlocked_files fm)) (\<lambda>fs. Inr (fm\<lparr>rlocked_files := fs\<rparr>))"

definition write_lock :: "string \<Rightarrow> FileManager \<Rightarrow> FileManager option" where
  "write_lock name fm =
     (if list_ex (\<lambda>f. name = file_name f) (rlocked_files fm) then None
      else Some (fm\<lparr>wlocked_files := wlocked_files fm @ [name]\<rparr>))"

text \<open>\<open>write_unlock\<close>: the first entry of the name is erased.\<close>

definition write_unlock :: "string \<Rightarrow> FileManager \<Rightarrow> FileManager" where
  "write_unlock name fm = fm\<lparr>wlocked_files := remove1 name (wlocked_files fm)\<rparr>"

text \<open>
  \<open>store_resource\<close>. What the file system does is a parameter: whether the file can be
  created, and how many octets it takes; \<open>junk\<close> is what octets nobody wrote read as.
\<close>

definition store_resource ::
    "Uint8 \<Rightarrow> bool \<Rightarrow> nat \<Rightarrow> CompleteResource \<Rightarrow> FileManager \<Rightarrow> FileManager result option" where
  "store_resource junk created room cr fm =
     (let name = res_name (cr_resource cr)
      in case write_lock name fm of
           None \<Rightarrow> None
         | Some fm \<Rightarrow>
             if \<not> created then Some (Inr fm)
             else Some (bindE (file_contents cr) (\<lambda>data.
                    let octets = map (\<lambda>b. case b of Some x \<Rightarrow> x | None \<Rightarrow> junk) data;
                        fm = fm\<lparr>fm_disk := (fm_disk fm)(name \<mapsto> take room octets)\<rparr>
                    in Inr (write_unlock name fm))))"

section \<open>The lock tables as an interface\<close>

text \<open>
  Readers and writers of a table of files: what a client of the locks may rely on, and what
  follows for every sequence of lock operations.
\<close>

datatype lock_op = RLock string | WLock string | WUnlock string

fun lock_step ::
    "(string \<Rightarrow> 's \<Rightarrow> (bool \<times> 's) option) \<Rightarrow> (string \<Rightarrow> 's \<Rightarrow> 's option) \<Rightarrow> (string \<Rightarrow> 's \<Rightarrow> 's) \<Rightarrow>
     lock_op \<Rightarrow> 's \<Rightarrow> 's option" where
  "lock_step rlock wlock wunlock (RLock f) s = map_option snd (rlock f s)"
| "lock_step rlock wlock wunlock (WLock f) s = wlock f s"
| "lock_step rlock wlock wunlock (WUnlock f) s = Some (wunlock f s)"

text \<open>An operation that would wait is tried again later: here it leaves the state.\<close>

definition lock_run ::
    "(string \<Rightarrow> 's \<Rightarrow> (bool \<times> 's) option) \<Rightarrow> (string \<Rightarrow> 's \<Rightarrow> 's option) \<Rightarrow> (string \<Rightarrow> 's \<Rightarrow> 's) \<Rightarrow>
     lock_op list \<Rightarrow> 's \<Rightarrow> 's" where
  "lock_run rlock wlock wunlock =
     fold (\<lambda>op s. case lock_step rlock wlock wunlock op s of Some s' \<Rightarrow> s' | None \<Rightarrow> s)"

locale rw_lock =
  fixes readers :: "'s \<Rightarrow> string set"
    and writers :: "'s \<Rightarrow> string set"
    and rlock :: "string \<Rightarrow> 's \<Rightarrow> (bool \<times> 's) option"
    and wlock :: "string \<Rightarrow> 's \<Rightarrow> 's option"
    and wunlock :: "string \<Rightarrow> 's \<Rightarrow> 's"
  assumes rlock_law: "rlock f s = Some (ok, s') \<Longrightarrow>
      f \<notin> writers s \<and> writers s' = writers s \<and> readers s' = (if ok then insert f (readers s) else readers s)"
    and wlock_law: "wlock f s = Some s' \<Longrightarrow>
      f \<notin> readers s \<and> readers s' = readers s \<and> writers s' = insert f (writers s)"
    and wunlock_law: "readers (wunlock f s) = readers s \<and> writers (wunlock f s) \<subseteq> writers s"
begin

lemma step_excludes:
  assumes "readers s \<inter> writers s = {}" "lock_step rlock wlock wunlock op s = Some s'"
  shows "readers s' \<inter> writers s' = {}"
proof (cases op)
  case (RLock f)
  with assms(2) obtain ok where ok: "rlock f s = Some (ok, s')" by auto
  from rlock_law [OF ok] assms(1) show ?thesis by (cases ok) auto
next
  case (WLock f)
  with assms(2) have "wlock f s = Some s'" by simp
  from wlock_law [OF this] assms(1) show ?thesis by auto
next
  case (WUnlock f)
  with assms wunlock_law [of f s] show ?thesis by auto
qed

lemma run_excludes:
  "readers s \<inter> writers s = {} \<Longrightarrow>
   readers (lock_run rlock wlock wunlock ops s) \<inter> writers (lock_run rlock wlock wunlock ops s) = {}"
  by (induction ops arbitrary: s) (auto simp: lock_run_def dest: step_excludes split: option.splits)

end

text \<open>The tables of \<open>FileManager\<close> implement it, as long as \<open>read_lock\<close> runs undisturbed.\<close>

definition read_locked :: "FileManager \<Rightarrow> string set" where
  "read_locked fm = file_name ` set (rlocked_files fm)"

definition write_locked :: "FileManager \<Rightarrow> string set" where
  "write_locked fm = set (wlocked_files fm)"

lemma find_open_None: "find_open name fm = None \<longleftrightarrow> name \<notin> read_locked fm"
  by (auto simp: find_open_def read_locked_def find_None_iff)

interpretation fm_locks: rw_lock read_locked write_locked read_lock write_lock write_unlock
proof unfold_locales
  fix f s ok s' assume "read_lock f s = Some (ok, s')"
  then show "f \<notin> write_locked s \<and> write_locked s' = write_locked s \<and>
      read_locked s' = (if ok then insert f (read_locked s) else read_locked s)"
    using find_open_None [of f s]
    by (auto simp: read_lock_def read_lock_check_def read_lock_open_def Let_def list_ex_iff
        write_locked_def read_locked_def split: if_splits)
next
  fix f s s' assume "write_lock f s = Some s'"
  then show "f \<notin> read_locked s \<and> read_locked s' = read_locked s \<and>
      write_locked s' = insert f (write_locked s)"
    by (auto simp: write_lock_def list_ex_iff read_locked_def write_locked_def split: if_splits)
next
  fix f s
  show "read_locked (write_unlock f s) = read_locked s \<and> write_locked (write_unlock f s) \<subseteq> write_locked s"
    using set_remove1_subset [of f "wlocked_files s"]
    by (simp add: write_unlock_def read_locked_def write_locked_def)
qed

section \<open>Reading segments\<close>

lemma find_upd_first:
  "(\<And>x. p (g x) = p x) \<Longrightarrow> find p (upd_first p g xs) = map_option g (find p xs)"
  by (induction xs) auto

lemma find_upd_first_other:
  "(\<And>x. q x \<Longrightarrow> \<not> p x) \<Longrightarrow> (\<And>x. q (g x) = q x) \<Longrightarrow> find q (upd_first p g xs) = find q xs"
  by (induction xs) auto

lemma find_open_set_stream:
  "find_open n (set_stream name st fm) =
     (if n = name then map_option (\<lambda>f. f\<lparr>stream := st\<rparr>) (find_open n fm) else find_open n fm)"
proof (cases "n = name")
  case False
  then show ?thesis
    by (simp add: find_open_def set_stream_def
        find_upd_first_other [where q = "\<lambda>f. file_name f = n" and p = "\<lambda>f. file_name f = name"])
qed (simp add: find_open_def set_stream_def find_upd_first)

lemma set_stream_simps [simp]:
  "fm_disk (set_stream name st fm) = fm_disk fm"
  "wlocked_files (set_stream name st fm) = wlocked_files fm"
  by (simp_all add: set_stream_def)

lemma read_locked_set_stream [simp]: "read_locked (set_stream name st fm) = read_locked fm"
proof -
  have "map file_name (upd_first (\<lambda>f. file_name f = name) (\<lambda>f. f\<lparr>stream := st\<rparr>) fs) = map file_name fs" for fs
    by (induction fs) auto
  from arg_cong [OF this, of set] show ?thesis by (simp add: read_locked_def set_stream_def)
qed

text \<open>The file is open for reading and its stream has not failed.\<close>

definition readable :: "string \<Rightarrow> FileManager \<Rightarrow> bool" where
  "readable name fm \<longleftrightarrow>
     (case find_open name fm of
        Some f \<Rightarrow> is_open (stream f) \<and> \<not> failbit (stream f)
      | None \<Rightarrow> False)"

definition failed :: "string \<Rightarrow> FileManager \<Rightarrow> bool" where
  "failed name fm \<longleftrightarrow>
     (case find_open name fm of Some f \<Rightarrow> failbit (stream f) | None \<Rightarrow> False)"

text \<open>A stream that has not failed is positioned at the segment and read there.\<close>

lemma get_segment_reads:
  assumes f: "find_open name fm = Some f" "is_open (stream f)" "\<not> failbit (stream f)"
    and c: "fm_disk fm name = Some c" and n: "n \<le> SEGMENT_SIZE" and d: "length data = SEGMENT_SIZE"
    and bs: "bs = take n (drop (unat segment * SEGMENT_SIZE) c)"
    and st: "st = (stream f)\<lparr>eofbit := length bs < n, failbit := length bs < n,
                    gpos := unat segment * SEGMENT_SIZE + length bs\<rparr>"
  shows "get_segment name segment (Some data) n fm =
    (if length bs < n then Inr (False, Some (map Some bs @ drop (length bs) data), set_stream name st fm)
     else Inr (True, Some (map Some bs @ replicate (SEGMENT_SIZE - n) (Some 0)), set_stream name st fm))"
proof -
  define pos where "pos = unat segment * SEGMENT_SIZE"
  have seek: "seekg pos (stream f) = (stream f)\<lparr>eofbit := False, gpos := pos\<rparr>"
    using f(3) by (simp add: seekg_def Let_def)
  have tell: "tellg ((stream f)\<lparr>eofbit := False, gpos := pos\<rparr>) = int pos"
    using f(3) by (simp add: tellg_def)
  have rd: "read_stream c n ((stream f)\<lparr>eofbit := False, gpos := pos\<rparr>) = (bs, st)"
    using f(3) by (simp add: read_stream_def Let_def bs st pos_def del: length_take length_drop)
  have le: "length bs \<le> n" by (simp add: bs)
  have cp: "memcpy data 0 (map Some bs) = Inr (map Some bs @ drop (length bs) data)"
    using le n d by (simp add: memcpy_def)
  have fill: "memcpy (map Some bs @ drop (length bs) data) n (replicate (SEGMENT_SIZE - n) (Some 0)) =
      Inr (map Some bs @ replicate (SEGMENT_SIZE - n) (Some 0))" if "\<not> length bs < n"
    using that le n d by (simp add: memcpy_def)
  have flags: "failbit st = (length bs < n)" "eofbit st = (length bs < n)" by (simp_all add: st)
  show ?thesis
    using f n c d fill le flags
    unfolding get_segment_def pos_def [symmetric]
    by (simp add: Let_def seek tell rd cp)
qed

lemma get_segment_within:
  assumes "readable name fm" "fm_disk fm name = Some c" "length data = SEGMENT_SIZE"
    and "n \<le> SEGMENT_SIZE" "unat segment * SEGMENT_SIZE + n \<le> length c"
  shows "\<exists>st. get_segment name segment (Some data) n fm =
      Inr (True, Some (map Some (take n (drop (unat segment * SEGMENT_SIZE) c) @
             replicate (SEGMENT_SIZE - n) 0)), set_stream name st fm) \<and>
    is_open st \<and> \<not> failbit st"
proof -
  obtain f where f: "find_open name fm = Some f" "is_open (stream f)" "\<not> failbit (stream f)"
    using assms(1) by (auto simp: readable_def split: option.splits)
  show ?thesis
    using get_segment_reads [OF f assms(2,4,3) refl refl, of segment] assms(5) f by auto
qed

text \<open>Whatever the state of the stream, an open file is read without a fault.\<close>

lemma read_stream_length: "length (fst (read_stream c n st)) \<le> n"
  by (simp add: read_stream_def Let_def)

lemma get_segment_safe:
  assumes "name \<in> read_locked fm" "length data = SEGMENT_SIZE"
  shows "\<exists>ok data' fm'. get_segment name segment (Some data) n fm = Inr (ok, Some data', fm') \<and>
    length data' = SEGMENT_SIZE \<and> read_locked fm' = read_locked fm \<and> fm_disk fm' = fm_disk fm \<and>
    wlocked_files fm' = wlocked_files fm"
proof -
  obtain f where f: "find_open name fm = Some f" using assms(1) find_open_None [of name fm] by auto
  define pos where "pos = unat segment * SEGMENT_SIZE"
  define c where "c = (case fm_disk fm name of Some c \<Rightarrow> c | None \<Rightarrow> [])"
  obtain bs st where rd: "read_stream c n (seekg pos (stream f)) = (bs, st)" by fastforce
  have len: "length bs \<le> n" using read_stream_length [of c n "seekg pos (stream f)"] rd by simp
  let ?data = "map Some bs @ drop (length bs) data"
  show ?thesis
  proof (cases "SEGMENT_SIZE < n \<or> \<not> is_open (stream f) \<or> tellg (seekg pos (stream f)) \<noteq> int pos")
    case True
    then show ?thesis using f assms(2) by (auto simp: get_segment_def Let_def pos_def)
  next
    case False
    then have n: "n \<le> 1024" and cp: "memcpy data 0 (map Some bs) = Inr ?data"
      using len assms(2) by (simp_all add: memcpy_def)
    have fill: "memcpy ?data n (replicate (1024 - n) (Some 0)) = Inr (take n ?data @ replicate (1024 - n) (Some 0))"
      using n len assms(2) by (simp add: memcpy_def)
    have "get_segment name segment (Some data) n fm =
        (let fm = set_stream name st fm in
         if failbit st \<and> \<not> (eofbit st \<and> \<not> failbit st) then Inr (False, Some ?data, fm)
         else if n < SEGMENT_SIZE then Inr (True, Some (take n ?data @ replicate (1024 - n) (Some 0)), fm)
         else Inr (True, Some ?data, fm))"
      using False f rd cp fill unfolding get_segment_def pos_def [symmetric] c_def [symmetric]
      by (simp add: Let_def)
    then show ?thesis using n len assms(2) by (auto simp: Let_def)
  qed
qed

text \<open>C20: \<open>get_segment\<close> of a file that is open for reading, for octets that lie within
  the file, fills the whole result buffer with those octets followed by zeros, reports success
  and leaves the file readable, so that segments can be served in any order.\<close>

theorem get_segment_serves:
  assumes "readable name fm" "fm_disk fm name = Some c" "length data = SEGMENT_SIZE"
    and "n \<le> SEGMENT_SIZE" "unat segment * SEGMENT_SIZE + n \<le> length c"
  shows "\<exists>fm'. get_segment name segment (Some data) n fm =
      Inr (True, Some (map Some (take n (drop (unat segment * SEGMENT_SIZE) c) @
             replicate (SEGMENT_SIZE - n) 0)), fm') \<and>
    readable name fm' \<and> fm_disk fm' = fm_disk fm"
proof -
  obtain st where st: "get_segment name segment (Some data) n fm =
      Inr (True, Some (map Some (take n (drop (unat segment * SEGMENT_SIZE) c) @
             replicate (SEGMENT_SIZE - n) 0)), set_stream name st fm)"
    "is_open st" "\<not> failbit st"
    using get_segment_within [OF assms] by blast
  then have "readable name (set_stream name st fm)"
    using assms(1) by (auto simp: readable_def find_open_set_stream split: option.splits)
  with st(1) show ?thesis by auto
qed

definition example_manager :: FileManager where
  "example_manager = \<lparr>rlocked_files = [\<lparr>file_name = ''a'',
       stream = \<lparr>is_open = True, eofbit = False, failbit = False, gpos = 0\<rparr>\<rparr>],
     wlocked_files = [], fm_disk = [''a'' \<mapsto> [1, 2, 3]]\<rparr>"

lemma example_readable: "readable ''a'' example_manager" "fm_disk example_manager ''a'' = Some [1, 2, 3]"
  by (simp_all add: readable_def find_open_def example_manager_def)

theorem get_segment_serves_witness:
  "\<exists>fm'. get_segment ''a'' 0 (Some (replicate 1024 None)) 3 example_manager =
      Inr (True, Some (map Some ([1, 2, 3] @ replicate 1021 0)), fm') \<and> readable ''a'' fm'"
  using get_segment_serves [OF example_readable, of "replicate 1024 None" 3 0] by auto

section \<open>Reading past the end\<close>

lemma get_segment_failed:
  assumes "failed name fm"
  shows "\<exists>fm'. get_segment name segment (Some data) n fm = Inr (False, Some data, fm') \<and> failed name fm'"
proof -
  obtain f where f: "find_open name fm = Some f" "failbit (stream f)"
    using assms by (auto simp: failed_def split: option.splits)
  let ?st = "(stream f)\<lparr>eofbit := False\<rparr>"
  have st: "seekg p (stream f) = ?st" "tellg ?st \<noteq> int p" for p
    using f(2) by (simp_all add: seekg_def tellg_def)
  then have "get_segment name segment (Some data) n fm \<in>
      {Inr (False, Some data, fm), Inr (False, Some data, set_stream name ?st fm)}"
    using f(1) by (simp add: get_segment_def Let_def)
  moreover have "failed name (set_stream name ?st fm)"
    using f by (simp add: failed_def find_open_set_stream)
  ultimately show ?thesis using assms by auto
qed

text \<open>The answers to a sequence of requests for segments of one file.\<close>

fun answers :: "string \<Rightarrow> (Uint16 \<times> nat) list \<Rightarrow> Uint8 option list option \<Rightarrow> FileManager \<Rightarrow> bool list result" where
  "answers name [] buf fm = Inr []"
| "answers name ((segment, n) # rs) buf fm =
     bindE (get_segment name segment buf n fm) (\<lambda>(ok, buf, fm).
     bindE (answers name rs buf fm) (\<lambda>bs. Inr (ok # bs)))"

lemma answers_failed:
  "failed name fm \<Longrightarrow> answers name rs (Some data) fm = Inr (replicate (length rs) False)"
proof (induction rs arbitrary: fm)
  case (Cons r rs)
  obtain segment n where r: "r = (segment, n)" by force
  obtain fm' where "get_segment name segment (Some data) n fm = Inr (False, Some data, fm')" "failed name fm'"
    using get_segment_failed [OF Cons.prems] by blast
  with Cons.IH [of fm'] show ?case by (simp add: r)
qed simp

text \<open>C25: One request that reaches past the end of a file makes the stream fail, and the
  failure is never cleared: that request and every later one for the same file is refused, also
  by the workers of other peers, although the file is intact and open for reading.\<close>

theorem over_read_is_permanent:
  assumes "readable name fm" "fm_disk fm name = Some c" "length data = SEGMENT_SIZE"
    and "n \<le> SEGMENT_SIZE" "0 < n" "length c < unat segment * SEGMENT_SIZE + n"
  shows "answers name ((segment, n) # rs) (Some data) fm = Inr (replicate (Suc (length rs)) False)"
proof -
  obtain f where f: "find_open name fm = Some f" "is_open (stream f)" "\<not> failbit (stream f)"
    using assms(1) by (auto simp: readable_def split: option.splits)
  let ?bs = "take n (drop (unat segment * SEGMENT_SIZE) c)"
  have short: "length ?bs < n" using assms(5,6) by auto
  let ?st = "(stream f)\<lparr>eofbit := length ?bs < n, failbit := length ?bs < n,
    gpos := unat segment * SEGMENT_SIZE + length ?bs\<rparr>"
  have "get_segment name segment (Some data) n fm =
      Inr (False, Some (map Some ?bs @ drop (length ?bs) data), set_stream name ?st fm)"
    using get_segment_reads [OF f assms(2,4,3) refl refl, of segment] short by (simp only: if_True)
  moreover have "failed name (set_stream name ?st fm)"
    using f(1) short unfolding failed_def by (simp add: find_open_set_stream)
  ultimately show ?thesis by (simp add: answers_failed)
qed

theorem over_read_is_permanent_witness:
  "answers ''a'' ((0, 4) # [(0, 3), (0, 3)]) (Some (replicate 1024 None)) example_manager =
     Inr [False, False, False]"
  using over_read_is_permanent [OF example_readable, of "replicate 1024 None" 4 0 "[(0, 3), (0, 3)]"]
  by (simp add: numeral_3_eq_3)

section \<open>Locks\<close>

text \<open>C19: As long as each call of \<open>read_lock\<close> is undisturbed, no sequence of lock operations
  makes a file both read-locked and write-locked.\<close>

theorem locks_exclude:
  "read_locked (lock_run read_lock write_lock write_unlock ops (FileManager_new d)) \<inter>
   write_locked (lock_run read_lock write_lock write_unlock ops (FileManager_new d)) = {}"
  by (rule fm_locks.run_excludes) (simp add: FileManager_new_def read_locked_def)

text \<open>C36: But \<open>read_lock\<close> tests the write locks and enters the file in the table of open
  files in two critical sections: a \<open>write_lock\<close> between them succeeds too, and for every
  file on the disk without locks the reader and the writer hold it at the same time.\<close>

theorem read_lock_race:
  assumes "fm_disk fm name = Some c" "name \<notin> read_locked fm" "name \<notin> write_locked fm"
  shows "read_lock_check name fm \<and>
    (\<exists>fm' fm''. write_lock name fm = Some fm' \<and> read_lock_open name fm' = (True, fm'') \<and>
       name \<in> read_locked fm'' \<and> name \<in> write_locked fm'')"
proof -
  have "find_open name (fm\<lparr>wlocked_files := wlocked_files fm @ [name]\<rparr>) = None"
    using assms(2) by (simp add: find_open_None read_locked_def)
  then show ?thesis
    using assms by (auto simp: read_lock_check_def write_lock_def read_lock_open_def open_stream_def
        list_ex_iff read_locked_def write_locked_def Let_def)
qed

theorem read_lock_race_witness:
  "\<exists>fm' fm''. write_lock ''a'' (FileManager_new [''a'' \<mapsto> [1]]) = Some fm' \<and>
     read_lock_open ''a'' fm' = (True, fm'') \<and> ''a'' \<in> read_locked fm'' \<and> ''a'' \<in> write_locked fm''"
  using read_lock_race [of "FileManager_new [''a'' \<mapsto> [1]]" "''a''" "[1]"]
  by (simp add: FileManager_new_def read_locked_def write_locked_def)

text \<open>\<open>read_unlock\<close> never releases a file: if the file is open for reading the loop
  goes on with an erased iterator, and otherwise nothing changes.\<close>

lemma read_unlock_releases_nothing:
  "read_unlock name fm = (if name \<in> read_locked fm then Inl InvalidIterator else Inr fm)"
proof -
  have "read_unlock_loop name fs =
      (if name \<in> file_name ` set fs then Inl InvalidIterator else Inr fs)" for fs
    by (induction fs) auto
  then show ?thesis by (simp add: read_unlock_def read_locked_def)
qed

section \<open>Storing\<close>

lemma read_lock_succeeds:
  assumes "fm_disk fm name = Some c" "name \<notin> read_locked fm" "name \<notin> write_locked fm"
  shows "\<exists>fm'. read_lock name fm = Some (True, fm') \<and> readable name fm' \<and> fm_disk fm' = fm_disk fm \<and>
    write_locked fm' = write_locked fm"
proof -
  have "find_open name fm = None" using assms(2) by (simp add: find_open_None)
  then show ?thesis
    using assms by (auto simp: read_lock_def read_lock_check_def read_lock_open_def open_stream_def
        list_ex_iff write_locked_def Let_def readable_def find_open_def find_append split: option.splits)
qed

lemma store_resource_writes:
  assumes "file_contents cr = Inr (map Some f)" "length f \<le> room"
    and "store_resource junk True room cr fm = Some (Inr fm')"
  shows "fm_disk fm' = (fm_disk fm)(res_name (cr_resource cr) \<mapsto> f)"
    "res_name (cr_resource cr) \<notin> read_locked fm'" "write_locked fm' \<subseteq> write_locked fm \<union> {res_name (cr_resource cr)}"
    "res_name (cr_resource cr) \<notin> write_locked fm \<Longrightarrow> write_locked fm' = write_locked fm"
proof -
  let ?name = "res_name (cr_resource cr)"
  have "map (\<lambda>b. case b of Some x \<Rightarrow> x | None \<Rightarrow> junk) (map Some f) = f" by (simp add: o_def)
  then have "?name \<notin> read_locked fm" "fm' = fm\<lparr>wlocked_files := remove1 ?name (wlocked_files fm @ [?name]),
      fm_disk := (fm_disk fm)(?name \<mapsto> f)\<rparr>"
    using assms by (auto simp: store_resource_def write_lock_def write_unlock_def list_ex_iff read_locked_def
        Let_def o_def split: if_splits)
  moreover have "set (remove1 ?name (wlocked_files fm @ [?name])) \<subseteq> set (wlocked_files fm) \<union> {?name}"
    using set_remove1_subset [of ?name "wlocked_files fm @ [?name]"] by auto
  ultimately show "fm_disk fm' = (fm_disk fm)(?name \<mapsto> f)" "?name \<notin> read_locked fm'"
      "write_locked fm' \<subseteq> write_locked fm \<union> {?name}" "?name \<notin> write_locked fm \<Longrightarrow> write_locked fm' = write_locked fm"
    by (simp_all add: read_locked_def write_locked_def remove1_append)
qed

lemma store_resource_stores:
  assumes "file_contents cr = Inr (map Some f)" "length f \<le> room"
    and "name = res_name (cr_resource cr)" "name \<notin> read_locked fm" "name \<notin> write_locked fm"
  shows "store_resource junk True room cr fm = Some (Inr (fm\<lparr>fm_disk := (fm_disk fm)(name \<mapsto> f)\<rparr>))"
proof -
  have "write_lock name fm = Some (fm\<lparr>wlocked_files := wlocked_files fm @ [name]\<rparr>)"
    using assms(4) by (auto simp: write_lock_def list_ex_iff read_locked_def)
  moreover have "map (\<lambda>b. case b of Some x \<Rightarrow> x | None \<Rightarrow> junk) (map Some f) = f"
    by (simp add: o_def)
  ultimately show ?thesis
    using assms by (simp add: store_resource_def Let_def write_unlock_def write_locked_def remove1_append
        o_def)
qed

text \<open>C21: A downloaded file that was stored can be served at once: after \<open>store_resource\<close>
  the file can be locked for reading and every part of it is read back as it was downloaded.\<close>

theorem store_then_serve:
  assumes "file_contents cr = Inr (map Some f)" "length f \<le> room"
    and "name = res_name (cr_resource cr)" "name \<notin> read_locked fm" "name \<notin> write_locked fm"
    and "n \<le> SEGMENT_SIZE" "unat segment * SEGMENT_SIZE + n \<le> length f" "length data = SEGMENT_SIZE"
  shows "\<exists>fm1 fm2 fm3. store_resource junk True room cr fm = Some (Inr fm1) \<and>
    read_lock name fm1 = Some (True, fm2) \<and>
    get_segment name segment (Some data) n fm2 =
      Inr (True, Some (map Some (take n (drop (unat segment * SEGMENT_SIZE) f) @
             replicate (SEGMENT_SIZE - n) 0)), fm3)"
proof -
  let ?fm1 = "fm\<lparr>fm_disk := (fm_disk fm)(name \<mapsto> f)\<rparr>"
  obtain fm2 where fm2: "read_lock name ?fm1 = Some (True, fm2)" "readable name fm2"
      "fm_disk fm2 = fm_disk ?fm1"
    using read_lock_succeeds [of ?fm1 name f] assms(4,5) by (auto simp: read_locked_def write_locked_def)
  then have "fm_disk fm2 name = Some f" by simp
  from get_segment_within [OF fm2(2) this assms(8,6,7)] fm2(1) store_resource_stores [OF assms(1-5)]
  show ?thesis by blast
qed

definition stored_resource :: CompleteResource where
  "stored_resource = \<lparr>cr_resource = Resource_new ''b'' 2 default_path, busy_segments = [False],
     completed_segments = [True], completed_counter = 1, cr_data = map Some (7 # 9 # replicate 1022 0)\<rparr>"

theorem store_then_serve_witness:
  "\<exists>fm1 fm2 fm3. store_resource 0 True 100 stored_resource (FileManager_new (\<lambda>_. None)) = Some (Inr fm1) \<and>
    read_lock ''b'' fm1 = Some (True, fm2) \<and>
    get_segment ''b'' 0 (Some (replicate 1024 None)) 2 fm2 =
      Inr (True, Some (map Some ([7, 9] @ replicate 1022 0)), fm3)"
proof -
  have f: "file_contents stored_resource = Inr (map Some [7, 9])"
    by (simp add: stored_resource_def Resource_new_def file_contents_def mem_range_def)
  have n: "''b'' = res_name (cr_resource stored_resource)"
    by (simp add: stored_resource_def Resource_new_def)
  have l: "''b'' \<notin> read_locked (FileManager_new (\<lambda>_. None))"
      "''b'' \<notin> write_locked (FileManager_new (\<lambda>_. None))"
    by (simp_all add: FileManager_new_def read_locked_def write_locked_def)
  from store_then_serve [OF f _ n l, of 100 2 0 "replicate 1024 None" 0] show ?thesis by simp
qed

text \<open>If the file cannot be created, \<open>store_resource\<close> returns without releasing the
  write lock it took, and from then on every attempt to read the file waits.\<close>

lemma store_failure_keeps_lock:
  assumes "store_resource junk False room cr fm = Some (Inr fm')"
  shows "res_name (cr_resource cr) \<in> write_locked fm' \<and> read_lock (res_name (cr_resource cr)) fm' = None"
  using assms by (auto simp: store_resource_def Let_def write_lock_def write_locked_def read_lock_def
      read_lock_check_def split: if_splits)

end
