(* ===== verification/Request_Worker.thy ===== *)
theory Request_Worker
  imports File_Manager
begin

text \<open>
  \<^verbatim>\<open>RequestWorker.h/.cpp\<close> and \<^verbatim>\<open>RequestServer.h/.cpp\<close>: the TCP side that serves segments. A
  worker reads a request into its buffer of 300 octets, has the file manager fill the send
  buffer and writes it back. The asynchronous operation it has started is its
  \<open>rw_pending\<close>; \<open>delete this\<close> makes the worker \<open>None\<close>. What the sockets deliver is the
  argument of the handlers. A handler that waits in \<open>read_lock\<close> is \<open>None\<close>.
\<close>

section \<open>The worker\<close>

text \<open>The member \<open>send_data\<close>, which the constructor leaves unset.\<close>

datatype heap_buffer = Unset | Null | Allocated "Uint8 option list"

datatype pending = Nothing | Reading | Writing "Uint8 option list option"

record RequestWorker =
  recv_data :: "Uint8 list"
  send_data :: heap_buffer
  rw_pending :: pending

definition MAX_RECV_DATA_LENGHT :: nat where
  "MAX_RECV_DATA_LENGHT = 300"

definition RequestWorker_new :: "Uint8 list \<Rightarrow> RequestWorker" where
  "RequestWorker_new memory =
     \<lparr>recv_data = take MAX_RECV_DATA_LENGHT (memory @ replicate MAX_RECV_DATA_LENGHT 0),
      send_data = Unset, rw_pending = Nothing\<rparr>"

text \<open>The destructor tests \<open>send_data\<close> before it frees it.\<close>

definition RequestWorker_delete :: "RequestWorker \<Rightarrow> unit result" where
  "RequestWorker_delete w =
     (case send_data w of Unset \<Rightarrow> Inl Uninitialised | Null \<Rightarrow> Inr () | Allocated _ \<Rightarrow> Inr ())"

text \<open>\<open>start\<close>: the flag says whether it throws; \<open>memory\<close> is what \<open>malloc\<close> returns.\<close>

definition start :: "bool \<Rightarrow> RequestWorker \<Rightarrow> bool \<times> RequestWorker" where
  "start memory w =
     (let w = w\<lparr>send_data := (if memory then Allocated (replicate SEGMENT_SIZE None) else Null)\<rparr>
      in if \<not> memory then (True, w) else (False, w\<lparr>rw_pending := Reading\<rparr>))"

text \<open>The fields of a request; all offsets are below 300.\<close>

definition parse_request :: "endian \<Rightarrow> Uint8 list \<Rightarrow> Uint8 \<times> string \<times> Uint64 \<times> Uint16" where
  "parse_request e recv =
     (let command = recv ! 0;
          file_name = c_string (take FILE_NAME_LENGHT (drop 1 recv));
          file_size = hton e (load_word e (take FILE_SIZE_LENGHT (drop (1 + FILE_NAME_LENGHT) recv)));
          segment = hton e (load_word e (take 2 (drop (1 + FILE_NAME_LENGHT + FILE_SIZE_LENGHT) recv)))
      in (command, file_name, file_size, segment))"

text \<open>
  \<open>static_cast<Uint16>(static_cast<double>(file_size) / SEGMENT_SIZE)\<close>. Sizes below \<open>2\<^sup>5\<^sup>3\<close>
  are exact as \<open>double\<close> and so is the division by a power of two; larger ones stay large. The
  conversion is defined only when the truncated quotient fits 16 bits.
\<close>

definition nsegments :: "Uint64 \<Rightarrow> Uint16 result" where
  "nsegments file_size =
     (if unat file_size div SEGMENT_SIZE < 65536
      then Inr (word_of_nat (unat file_size div SEGMENT_SIZE))
      else Inl BadFloatCast)"

definition requested_segment_size :: "Uint64 \<Rightarrow> Uint16 \<Rightarrow> Uint32 result" where
  "requested_segment_size file_size segment =
     bindE (nsegments file_size) (\<lambda>n.
       if segment = n then Inr (ucast (file_size - ucast n * word_of_nat SEGMENT_SIZE))
       else Inr (word_of_nat SEGMENT_SIZE))"

datatype read_event = Read_Error | Read_Data "Uint8 list"

definition send_buffer :: "RequestWorker \<Rightarrow> Uint8 option list option result" where
  "send_buffer w =
     (case send_data w of Unset \<Rightarrow> Inl Uninitialised | Null \<Rightarrow> Inr None | Allocated d \<Rightarrow> Inr (Some d))"

definition handle_read ::
    "endian \<Rightarrow> read_event \<Rightarrow> RequestWorker \<Rightarrow> FileManager \<Rightarrow>
     (RequestWorker option \<times> FileManager) result option" where
  "handle_read e ev w fm =
     (case ev of
        Read_Error \<Rightarrow> Some (bindE (RequestWorker_delete w) (\<lambda>_. Inr (None, fm)))
      | Read_Data bytes \<Rightarrow>
          (let w = w\<lparr>recv_data := bytes @ drop (length bytes) (recv_data w), rw_pending := Nothing\<rparr>;
               (command, file_name, file_size, segment) = parse_request e (recv_data w)
           in if command = REQ_SEGMENT
              then (case requested_segment_size file_size segment of
                      Inl err \<Rightarrow> Some (Inl err)
                    | Inr count \<Rightarrow>
                        (case read_lock file_name fm of
                           None \<Rightarrow> None
                         | Some (_, fm) \<Rightarrow>
                             Some (bindE (send_buffer w) (\<lambda>buf.
                               bindE (get_segment file_name segment buf (unat count) fm) (\<lambda>(ok, buf, fm).
                                 let w = w\<lparr>send_data := (case buf of None \<Rightarrow> Null | Some d \<Rightarrow> Allocated d)\<rparr>
                                 in if \<not> ok then bindE (RequestWorker_delete w) (\<lambda>_. Inr (None, fm))
                                    else Inr (Some (w\<lparr>rw_pending := Writing buf\<rparr>), fm))))))
              else if command = QUIT_CONN
              then Some (bindE (read_unlock file_name fm) (\<lambda>fm.
                     bindE (RequestWorker_delete w) (\<lambda>_. Inr (None, fm))))
              else Some (Inr (Some w, fm))))"

definition handle_write :: "bool \<Rightarrow> RequestWorker \<Rightarrow> RequestWorker option result" where
  "handle_write error w =
     (if \<not> error then Inr (Some (w\<lparr>rw_pending := Reading\<rparr>))
      else bindE (RequestWorker_delete w) (\<lambda>_. Inr None))"

section \<open>The server\<close>

text \<open>The worker waiting for a connection and the workers that were started.\<close>

record RequestServer =
  new_worker :: "RequestWorker option"
  started_workers :: "RequestWorker list"

definition start_accept :: "Uint8 list \<Rightarrow> RequestServer \<Rightarrow> RequestServer" where
  "start_accept memory srv = srv\<lparr>new_worker := Some (RequestWorker_new memory)\<rparr>"

definition handle_accept :: "Uint8 list \<Rightarrow> bool \<Rightarrow> bool \<Rightarrow> RequestServer \<Rightarrow> RequestServer result" where
  "handle_accept memory error allocated srv =
     bindE (of_option NullDeref (new_worker srv)) (\<lambda>w.
     bindE (if \<not> error
            then let (throws, w) = start allocated w
                 in if throws then bindE (RequestWorker_delete w) (\<lambda>_. Inr srv)
                    else Inr (srv\<lparr>started_workers := started_workers srv @ [w]\<rparr>)
            else bindE (RequestWorker_delete w) (\<lambda>_. Inr srv)) (\<lambda>srv.
       Inr (start_accept memory srv)))"

text \<open>
  The constructor, \<open>init2\<close>, and the part of \<open>RequestServerModule::init\<close> before the
  \<open>io_service\<close> runs: the server of the module with a first worker to accept for.
\<close>

definition RequestServer_new :: RequestServer where
  "RequestServer_new = \<lparr>new_worker = None, started_workers = []\<rparr>"

definition init2 :: "Uint8 list \<Rightarrow> RequestServer \<Rightarrow> RequestServer" where
  "init2 memory srv = start_accept memory srv"

definition RequestServerModule_run :: "Uint8 list \<Rightarrow> RequestServer" where
  "RequestServerModule_run memory = init2 memory RequestServer_new"

section \<open>The request as a wire format\<close>

lemma parse_request_append:
  assumes "length bs = 267"
  shows "parse_request e (bs @ rest) = parse_request e bs"
  using assms by (simp add: parse_request_def Let_def nth_append)

lemma parse_serialized:
  assumes "header_ok r" "cr_resource cr = r" "serialize_segment_request e cr i = Inr bs"
  shows "length bs = 267" "parse_request e' bs = (REQ_SEGMENT, res_name r, res_size r, i)"
proof -
  have l: "length (res_name r) \<le> 264" using assms(1) by (simp add: header_ok_def)
  obtain hdr where hdr: "generate_resource_header e r = Inr hdr" "length hdr = 264"
    using length_resource_header [OF l, of e] by auto
  have bs: "bs = REQ_SEGMENT # hdr @ store_word Big i"
    using serialize_segment_request_eq [of e cr hdr i] assms(2,3) hdr(1) by simp
  then show len: "length bs = 267" using hdr(2) by simp
  have dec: "Resource_from_header e' hdr = Resource_new (res_name r) (res_size r) default_path"
    using Resource_from_generated [OF l hdr(1)] assms(1) by (simp add: header_ok_def)
  then have "c_string (take 256 hdr) = res_name r"
      "hton e' (load_word e' (take 8 (drop 256 hdr))) = res_size r"
    using hdr(2) by (simp_all add: Resource_from_header_def Resource_new_def)
  moreover have "hton e' (load_word e' (store_word Big i)) = i"
    by (simp add: hton_load load_store_word)
  ultimately show "parse_request e' bs = (REQ_SEGMENT, res_name r, res_size r, i)"
    using hdr(2) unfolding parse_request_def bs Let_def by simp
qed

interpretation request: wire_codec
  "\<lambda>(r, i). serialize_segment_request e (CompleteResource_new r) i" "parse_request e'"
  "\<lambda>(r, i). (REQ_SEGMENT, res_name r, res_size r, i)" id "\<lambda>(r, i). header_ok r" 267 for e e'
proof unfold_locales
  fix x :: "Resource \<times> SegmentId"
  obtain r i where x: "x = (r, i)" by force
  assume "case x of (r, i) \<Rightarrow> header_ok r"
  then have r: "header_ok r" by (simp add: x)
  then obtain hdr where "generate_resource_header e r = Inr hdr"
    using header.enc_width [of r e] by blast
  then obtain bs where "serialize_segment_request e (CompleteResource_new r) i = Inr bs"
    by (simp add: serialize_segment_request_def)
  with parse_serialized(1) [OF r _ this]
  show "\<exists>bs. (case x of (r, i) \<Rightarrow> serialize_segment_request e (CompleteResource_new r) i) = Inr bs \<and>
      length bs = 267"
    by (simp add: x)
next
  fix x :: "Resource \<times> SegmentId" and bs
  obtain r i where x: "x = (r, i)" by force
  assume "case x of (r, i) \<Rightarrow> header_ok r"
    and "(case x of (r, i) \<Rightarrow> serialize_segment_request e (CompleteResource_new r) i) = Inr bs"
  then show "id (parse_request e' bs) = (case x of (r, i) \<Rightarrow> (REQ_SEGMENT, res_name r, res_size r, i))"
    using parse_serialized(2) [of r "CompleteResource_new r"] by (simp add: x)
qed

section \<open>Serving a segment\<close>

text \<open>The octets asked of the file manager: the rest of the file in its last segment.\<close>

lemma requested_segment_size_nat:
  assumes "unat sz < 2 ^ 26"
  shows "\<exists>c. requested_segment_size sz i = Inr c \<and>
    unat c = (if unat i = unat sz div 1024 then unat sz mod 1024 else 1024)"
proof -
  let ?q = "unat sz div 1024"
  have q: "?q < 65536" using assms by (simp add: div_less_iff_less_mult)
  then have n: "nsegments sz = Inr (word_of_nat ?q)" by (simp add: nsegments_def)
  have uq: "unat (word_of_nat ?q :: Uint16) = ?q" using q by (simp add: unat_of_nat)
  have eq: "i = word_of_nat ?q \<longleftrightarrow> unat i = ?q"
    unfolding word_unat_eq_iff uq by (rule refl)
  have "unat (ucast (word_of_nat ?q :: Uint16) :: Uint64) = ?q"
    using q uq by (simp add: unsigned_ucast_eq take_bit_eq_mod)
  then have m: "unat (ucast (word_of_nat ?q :: Uint16) * 1024 :: Uint64) = ?q * 1024"
    using q by (simp add: unat_word_ariths)
  have "?q * 1024 \<le> unat sz" by simp
  then have "unat (sz - ucast (word_of_nat ?q :: Uint16) * 1024) = unat sz mod 1024"
    using m by (simp add: unat_sub word_le_nat_alt minus_div_mult_eq_mod)
  then have "unat (ucast (sz - ucast (word_of_nat ?q :: Uint16) * 1024) :: Uint32) = unat sz mod 1024"
    by (simp add: unsigned_ucast_eq take_bit_eq_mod)
  with n eq show ?thesis by (simp add: requested_segment_size_def)
qed

lemma file_block_parts:
  assumes "i < (length f + 1023) div 1024"
    and "n = (if i = length f div 1024 then length f mod 1024 else 1024)"
  shows "n \<le> 1024 \<and> i * 1024 + n \<le> length f \<and>
    take n (drop (i * 1024) f) @ replicate (1024 - n) 0 = file_block f i"
proof -
  obtain q m where f: "length f = 1024 * q + m" and m: "m < 1024"
    by (metis mod_less_divisor mult_div_mod_eq zero_less_numeral)
  have dm: "length f div 1024 = q" "length f mod 1024 = m" using f m by simp_all
  have "i \<le> q" using assms(1) dm by (simp add: round_up_1024 split: if_splits)
  show ?thesis
  proof (cases "i = q")
    case True
    then have "n = m" "length (drop (i * 1024) f) = m" using assms(2) dm f by simp_all
    then show ?thesis using True f m by (simp add: file_block_def)
  next
    case False
    with \<open>i \<le> q\<close> have i: "i < q" by simp
    then have "i * 1024 + 1024 \<le> q * 1024" by (rule segment_fits)
    with f have "i * 1024 + 1024 \<le> length f" by simp
    moreover have "n = 1024" using False assms(2) dm by simp
    ultimately show ?thesis by (simp add: file_block_def)
  qed
qed

text \<open>A worker and a file manager ready to serve a file.\<close>

definition serves :: "string \<Rightarrow> Uint8 list \<Rightarrow> RequestWorker \<Rightarrow> FileManager \<Rightarrow> bool" where
  "serves name f w fm \<longleftrightarrow>
     length (recv_data w) = MAX_RECV_DATA_LENGHT \<and>
     (\<exists>d. send_data w = Allocated d \<and> length d = SEGMENT_SIZE) \<and>
     fm_disk fm name = Some f \<and> name \<notin> write_locked fm \<and>
     (name \<in> read_locked fm \<longrightarrow> readable name fm)"

lemma read_lock_for_serving:
  assumes "fm_disk fm name = Some f" "name \<notin> write_locked fm" "name \<in> read_locked fm \<longrightarrow> readable name fm"
  shows "\<exists>ok fm'. read_lock name fm = Some (ok, fm') \<and> readable name fm' \<and>
    fm_disk fm' = fm_disk fm \<and> write_locked fm' = write_locked fm"
proof (cases "name \<in> read_locked fm")
  case True
  with assms show ?thesis
    using find_open_None [of name fm]
    by (auto simp: read_lock_def read_lock_check_def read_lock_open_def write_locked_def list_ex_iff)
next
  case False
  with read_lock_succeeds [OF assms(1) _ assms(2)] show ?thesis by blast
qed

lemma serve_one:
  assumes w: "serves (res_name r) f w fm" and r: "header_ok r" "cr_resource cr = r"
    and f: "length f = unat (res_size r)" "unat (res_size r) < 2 ^ 26"
    and i: "unat i < unat (calc_segments_count r)"
    and req: "serialize_segment_request e cr i = Inr bs"
  shows "\<exists>w' fm'. handle_read e' (Read_Data bs) w fm = Some (Inr (Some w', fm')) \<and>
    rw_pending w' = Writing (Some (map Some (file_block f (unat i)))) \<and> serves (res_name r) f w' fm'"
proof -
  obtain d where d: "send_data w = Allocated d" "length d = SEGMENT_SIZE"
    and fm: "length (recv_data w) = 300" "fm_disk fm (res_name r) = Some f" "res_name r \<notin> write_locked fm"
      "res_name r \<in> read_locked fm \<longrightarrow> readable (res_name r) fm"
    using w by (auto simp: serves_def MAX_RECV_DATA_LENGHT_def)
  let ?w = "w\<lparr>recv_data := bs @ drop (length bs) (recv_data w), rw_pending := Nothing\<rparr>"
  note bs = parse_serialized [OF r req]
  have parsed: "parse_request e' (recv_data ?w) = (REQ_SEGMENT, res_name r, res_size r, i)"
    using parse_request_append [OF bs(1)] bs(2) by simp
  obtain c where c: "requested_segment_size (res_size r) i = Inr c"
      "unat c = (if unat i = length f div 1024 then length f mod 1024 else 1024)"
    using requested_segment_size_nat [OF f(2), of i] f(1) by metis
  have "unat i < (length f + 1023) div 1024"
    using less_le_trans [OF i [unfolded calc_segments_count_unat] mod_less_eq_dividend] f(1) by simp
  note blk = file_block_parts [OF this c(2)]
  obtain ok fm1 where fm1: "read_lock (res_name r) fm = Some (ok, fm1)" "readable (res_name r) fm1"
      "fm_disk fm1 = fm_disk fm" "write_locked fm1 = write_locked fm"
    using read_lock_for_serving [OF fm(2-4)] by blast
  obtain st where st: "get_segment (res_name r) i (Some d) (unat c) fm1 =
      Inr (True, Some (map Some (file_block f (unat i))), set_stream (res_name r) st fm1)"
      "is_open st" "\<not> failbit st"
    using get_segment_within [OF fm1(2) _ d(2), of f "unat c" i] fm1(3) fm(2) blk by auto
  let ?w' = "?w\<lparr>send_data := Allocated (map Some (file_block f (unat i))),
    rw_pending := Writing (Some (map Some (file_block f (unat i))))\<rparr>"
  have "readable (res_name r) (set_stream (res_name r) st fm1)"
    using st(2,3) fm1(2) by (auto simp: readable_def find_open_set_stream split: option.splits)
  then have "serves (res_name r) f ?w' (set_stream (res_name r) st fm1)"
    using fm(1-3) fm1(3,4) bs(1)
    by (simp add: serves_def MAX_RECV_DATA_LENGHT_def length_file_block write_locked_def)
  moreover have "handle_read e' (Read_Data bs) w fm = Some (Inr (Some ?w', set_stream (res_name r) st fm1))"
    unfolding handle_read_def read_event.case Let_def parsed
    using c(1) fm1(1) st(1) d(1) by (simp add: send_buffer_def)
  ultimately show ?thesis by fastforce
qed

section \<open>A session\<close>

text \<open>Requests read one after the other on one connection, each reply written in full.\<close>

fun session :: "endian \<Rightarrow> Uint8 list list \<Rightarrow> RequestWorker \<Rightarrow> FileManager \<Rightarrow>
    Uint8 option list option list option" where
  "session e [] w fm = Some []"
| "session e (bs # reqs) w fm =
     (case handle_read e (Read_Data bs) w fm of
        Some (Inr (Some w, fm)) \<Rightarrow>
          (case rw_pending w of
             Writing reply \<Rightarrow>
               (case handle_write False w of
                  Inr (Some w) \<Rightarrow> map_option ((#) reply) (session e reqs w fm)
                | _ \<Rightarrow> None)
           | _ \<Rightarrow> None)
      | _ \<Rightarrow> None)"

text \<open>C8: A worker answers every sequence of segment requests of a peer, of either byte order
  and in any order of segments, with those segments of the file on its disk, the last one
  padded with zeros; this holds for files below 64 MiB whose name fits the header.\<close>

theorem session_serves_file:
  assumes "serves (res_name r) f w fm" "header_ok r" "cr_resource cr = r"
    and "length f = unat (res_size r)" "unat (res_size r) < 2 ^ 26"
    and "\<forall>i \<in> set ids. unat i < unat (calc_segments_count r)"
  shows "\<exists>reqs. mapE (serialize_segment_request e cr) ids = Inr reqs \<and>
    session e' reqs w fm = Some (map (\<lambda>i. Some (map Some (file_block f (unat i)))) ids)"
  using assms(1,6)
proof (induction ids arbitrary: w fm)
  case (Cons i ids)
  obtain hdr where "generate_resource_header e (cr_resource cr) = Inr hdr"
    using header.enc_width [of r e] assms(2,3) by blast
  then obtain bs where bs: "serialize_segment_request e cr i = Inr bs"
    by (simp add: serialize_segment_request_def)
  have "unat i < unat (calc_segments_count r)" using Cons.prems(2) by simp
  from serve_one [OF Cons.prems(1) assms(2-5) this bs, of e'] obtain w1 fm1
    where 1: "handle_read e' (Read_Data bs) w fm = Some (Inr (Some w1, fm1))"
      "rw_pending w1 = Writing (Some (map Some (file_block f (unat i))))" "serves (res_name r) f w1 fm1"
    by blast
  have "serves (res_name r) f (w1\<lparr>rw_pending := Reading\<rparr>) fm1" using 1(3) by (simp add: serves_def)
  from Cons.IH [OF this] Cons.prems(2) obtain reqs where
      "mapE (serialize_segment_request e cr) ids = Inr reqs"
      "session e' reqs (w1\<lparr>rw_pending := Reading\<rparr>) fm1 =
        Some (map (\<lambda>i. Some (map Some (file_block f (unat i)))) ids)" by auto
  with bs 1 show ?case by (simp add: handle_write_def)
qed simp

lemma started_worker_serves:
  assumes "fm_disk fm name = Some f" "name \<notin> write_locked fm" "name \<notin> read_locked fm"
  shows "serves name f (snd (start True (RequestWorker_new memory))) fm"
  using assms by (simp add: serves_def start_def RequestWorker_new_def)

theorem session_serves_file_witness:
  "\<exists>reqs. mapE (serialize_segment_request Little (CompleteResource_new (Resource_new ''a'' 3 default_path)))
        [0, 0] = Inr reqs \<and>
    session Big reqs (snd (start True (RequestWorker_new []))) (FileManager_new [''a'' \<mapsto> [1, 2, 3]]) =
      Some (map (\<lambda>i. Some (map Some (file_block [1, 2, 3] (unat i)))) [0, 0 :: Uint16])"
  by (rule session_serves_file [where r = "Resource_new ''a'' 3 default_path"])
    (simp_all add: started_worker_serves FileManager_new_def write_locked_def read_locked_def
      Resource_new_def header_ok_def nul_free_def calc_segments_count_def)

section \<open>What a request can do\<close>

lemma handle_read_request:
  assumes "header_ok r" "cr_resource cr = r" "serialize_segment_request e cr i = Inr bs"
  shows "parse_request e' (recv_data (w\<lparr>recv_data := bs @ drop (length bs) (recv_data w),
      rw_pending := Nothing\<rparr>)) = (REQ_SEGMENT, res_name r, res_size r, i)"
  using parse_request_append [OF parse_serialized(1) [OF assms]] parse_serialized(2) [OF assms] by simp

lemma request_exists:
  assumes "header_ok r"
  obtains bs where "serialize_segment_request e (CompleteResource_new r) i = Inr bs"
  using request.enc_width [of "(r, i)" e] assms by auto

text \<open>A worker between \<open>start\<close> and its deletion.\<close>

definition worker_ready :: "RequestWorker \<Rightarrow> bool" where
  "worker_ready w \<longleftrightarrow> length (recv_data w) = MAX_RECV_DATA_LENGHT \<and>
     (\<exists>d. send_data w = Allocated d \<and> length d = SEGMENT_SIZE)"

lemma worker_ready_delete: "worker_ready w \<Longrightarrow> RequestWorker_delete w = Inr ()"
  by (auto simp: worker_ready_def RequestWorker_delete_def)

lemma requested_segment_size_large:
  "2 ^ 26 \<le> unat sz \<Longrightarrow> requested_segment_size sz i = Inl BadFloatCast"
  using div_le_mono [of "2 ^ 26" "unat sz" 1024] by (simp add: requested_segment_size_def nsegments_def)

text \<open>The read lock of a request: what the worker finds in the table afterwards.\<close>

lemma read_lock_request:
  assumes "name \<notin> write_locked fm"
  shows "\<exists>ok fm'. read_lock name fm = Some (ok, fm') \<and> fm_disk fm' = fm_disk fm \<and>
    wlocked_files fm' = wlocked_files fm \<and>
    read_locked fm' = (if fm_disk fm name = None then read_locked fm else insert name (read_locked fm))
    \<or> name \<in> read_locked fm \<and> read_lock name fm = Some (True, fm)"
  using assms find_open_None [of name fm]
  by (auto simp: read_lock_def read_lock_check_def read_lock_open_def open_stream_def list_ex_iff
      write_locked_def read_locked_def Let_def split: option.splits)

lemma read_request_step:
  assumes "worker_ready w" "unat sz < 2 ^ 26" "name \<notin> write_locked fm"
    and parsed: "parse_request e (bytes @ drop (length bytes) (recv_data w)) = (REQ_SEGMENT, name, sz, segment)"
    and "length bytes \<le> MAX_RECV_DATA_LENGHT"
  shows "if name \<notin> read_locked fm \<and> fm_disk fm name = None
    then handle_read e (Read_Data bytes) w fm = Some (Inl Uninitialised)
    else \<exists>w' fm'. handle_read e (Read_Data bytes) w fm = Some (Inr (w', fm')) \<and>
      fm_disk fm' = fm_disk fm \<and> write_locked fm' = write_locked fm \<and>
      read_locked fm' = insert name (read_locked fm) \<and>
      (\<forall>v. w' = Some v \<longrightarrow> worker_ready v \<and> (\<exists>b. rw_pending v = Writing (Some b) \<and> length b = SEGMENT_SIZE))"
proof -
  obtain d where d: "send_data w = Allocated d" "length d = SEGMENT_SIZE"
    and recv: "length (bytes @ drop (length bytes) (recv_data w)) = MAX_RECV_DATA_LENGHT"
    using assms(1,5) by (auto simp: worker_ready_def)
  obtain c where c: "requested_segment_size sz segment = Inr c" "unat c \<le> 1024"
    using requested_segment_size_nat [OF assms(2), of segment] by (auto split: if_splits)
  obtain ok fm1 where fm1: "read_lock name fm = Some (ok, fm1)" "fm_disk fm1 = fm_disk fm"
      "wlocked_files fm1 = wlocked_files fm"
      "read_locked fm1 = (if fm_disk fm name = None then read_locked fm else insert name (read_locked fm))"
    using read_lock_request [OF assms(3)] by (auto simp: insert_absorb)
  let ?w = "w\<lparr>recv_data := bytes @ drop (length bytes) (recv_data w), rw_pending := Nothing\<rparr>"
  have step: "handle_read e (Read_Data bytes) w fm =
      Some (bindE (get_segment name segment (Some d) (unat c) fm1) (\<lambda>(ok, buf, fm).
        let w = ?w\<lparr>send_data := (case buf of None \<Rightarrow> Null | Some d \<Rightarrow> Allocated d)\<rparr>
        in if \<not> ok then bindE (RequestWorker_delete w) (\<lambda>_. Inr (None, fm))
           else Inr (Some (w\<lparr>rw_pending := Writing buf\<rparr>), fm)))"
    using parsed c(1) fm1(1) d(1) unfolding handle_read_def read_event.case Let_def
    by (simp add: send_buffer_def)
  show ?thesis
  proof (cases "name \<in> read_locked fm1")
    case False
    then have "get_segment name segment (Some d) (unat c) fm1 = Inl Uninitialised"
      using c(2) find_open_None [of name fm1] by (simp add: get_segment_def)
    with step False fm1(4) show ?thesis by (auto split: if_splits)
  next
    case True
    obtain ok' data fm2 where fm2: "get_segment name segment (Some d) (unat c) fm1 = Inr (ok', Some data, fm2)"
        "length data = SEGMENT_SIZE" "read_locked fm2 = read_locked fm1" "fm_disk fm2 = fm_disk fm1"
        "wlocked_files fm2 = wlocked_files fm1"
      using get_segment_safe [OF True d(2)] by blast
    have "handle_read e (Read_Data bytes) w fm = Some (Inr (if ok' then
        Some (?w\<lparr>send_data := Allocated data, rw_pending := Writing (Some data)\<rparr>) else None, fm2))"
      using step fm2(1) by (simp add: RequestWorker_delete_def Let_def)
    moreover have "read_locked fm2 = insert name (read_locked fm)"
      using True fm1(4) fm2(3) by (auto split: if_splits)
    moreover have "fm_disk fm2 = fm_disk fm" "write_locked fm2 = write_locked fm"
      using fm1 fm2 by (simp_all add: write_locked_def)
    ultimately show ?thesis
      using True fm1(4) fm2(2) recv by (auto simp: worker_ready_def split: if_splits)
  qed
qed

lemma handle_read_outcome:
  assumes "worker_ready w" "length bytes \<le> MAX_RECV_DATA_LENGHT"
    and "parse_request e (bytes @ drop (length bytes) (recv_data w)) = (command, name, file_size, segment)"
    and "outcome = handle_read e (Read_Data bytes) w fm"
  shows "if command = REQ_SEGMENT
    then if 2 ^ 26 \<le> unat file_size then outcome = Some (Inl BadFloatCast)
      else if name \<in> write_locked fm then outcome = None
      else if name \<notin> read_locked fm \<and> fm_disk fm name = None then outcome = Some (Inl Uninitialised)
      else \<exists>w' fm'. outcome = Some (Inr (w', fm')) \<and> fm_disk fm' = fm_disk fm \<and>
        write_locked fm' = write_locked fm \<and> read_locked fm' = insert name (read_locked fm) \<and>
        (\<forall>v. w' = Some v \<longrightarrow> worker_ready v \<and>
           (\<exists>b. rw_pending v = Writing (Some b) \<and> length b = SEGMENT_SIZE))
    else if command = QUIT_CONN
    then outcome = (if name \<in> read_locked fm then Some (Inl InvalidIterator) else Some (Inr (None, fm)))
    else \<exists>v. outcome = Some (Inr (Some v, fm)) \<and> worker_ready v \<and> rw_pending v = Nothing"
proof (cases "command = REQ_SEGMENT")
  case True
  note parsed = assms(3) [unfolded True]
  show ?thesis
  proof (cases "2 ^ 26 \<le> unat file_size")
    case large: True
    with True requested_segment_size_large [OF large, of segment] parsed assms(4) show ?thesis
      unfolding handle_read_def read_event.case Let_def by simp
  next
    case False
    then have small: "unat file_size < 2 ^ 26" by simp
    show ?thesis
    proof (cases "name \<in> write_locked fm")
      case locked: True
      obtain c where "requested_segment_size file_size segment = Inr c"
        using requested_segment_size_nat [OF small, of segment] by blast
      moreover have "read_lock name fm = None"
        using locked by (auto simp: read_lock_def read_lock_check_def list_ex_iff write_locked_def)
      ultimately have "outcome = None"
        using parsed assms(4) unfolding handle_read_def read_event.case Let_def by simp
      with True False locked show ?thesis by simp
    next
      case unlocked: False
      from read_request_step [OF assms(1) small this parsed assms(2)] True False unlocked
      show ?thesis unfolding assms(4) by simp
    qed
  qed
next
  case False
  have ready: "worker_ready (w\<lparr>recv_data := bytes @ drop (length bytes) (recv_data w), rw_pending := Nothing\<rparr>)"
    using assms(1,2) by (auto simp: worker_ready_def)
  from False assms(3,4) ready worker_ready_delete [OF ready] read_unlock_releases_nothing [of name fm]
  show ?thesis unfolding handle_read_def read_event.case Let_def by auto
qed



section \<open>Accepting connections\<close>

text \<open>Accepting a connection starts its worker, with a send buffer and a pending read, and
  a new one waits for the next connection. If accepting fails, deleting the worker that was
  never started tests its unset buffer pointer.\<close>

lemma accept_outcomes:
  "handle_accept memory error allocated (start_accept memory' srv) =
     (if error then Inl Uninitialised
      else if allocated
      then Inr (start_accept memory (srv\<lparr>started_workers := started_workers srv @
             [(RequestWorker_new memory')\<lparr>send_data := Allocated (replicate SEGMENT_SIZE None),
                rw_pending := Reading\<rparr>]\<rparr>))
      else Inr (start_accept memory srv))"
  by (simp add: handle_accept_def start_accept_def start_def RequestWorker_delete_def
      RequestWorker_new_def Let_def)

end
