(* ===== verification/Download_Service.thy ===== *)
theory Download_Service
  imports Download_Progress Request_Worker
begin

text \<open>
  \<^verbatim>\<open>src/DownloadService.cpp\<close>, its two ends: which workers \<open>create_workers\<close> makes of the
  database's contents, and what \<open>store_file\<close> leaves behind. The replies the workers
  receive are those of the \<open>RequestWorker\<close>s of the peers, so a download from peers that have
  the file on their disks yields the file.
\<close>

section \<open>Storing the file\<close>

text \<open>\<open>store_file\<close>: the file enters the database, then it is written; \<open>None\<close> when the
  writing waits for a reader.\<close>

definition store_file ::
    "Uint8 \<Rightarrow> bool \<Rightarrow> nat \<Rightarrow> CompleteResource \<Rightarrow> 'ip database \<times> FileManager \<Rightarrow>
     ('ip database \<times> FileManager) result option" where
  "store_file junk created room cr = (\<lambda>(db, fm).
     (case add_file_local (cr_resource cr) db of
        Inl e \<Rightarrow> Some (Inl e)
      | Inr db \<Rightarrow>
          map_option (\<lambda>x. bindE x (\<lambda>fm. Inr (db, fm))) (store_resource junk created room cr fm)))"

section \<open>Creating the workers\<close>

text \<open>In every reachable state of the database \<open>create_workers\<close> runs without a fault: it
  makes one worker for each entry of the resource's host list that is not banned now, in the
  order of the list, and fails when the list is empty or every host on it is banned.\<close>

lemma create_workers_eq:
  assumes "db_inv db" "p \<in> set (resources db)"
  shows "create_workers now db p =
    (let hs = hosts_in_possession (resOf db p);
         free = filter (\<lambda>h. \<not> is_retarded now (hostOf db h)) hs
     in if hs = [] then Inr (Inl No_host_has_resource)
        else if free = [] then Inr (Inl No_host_available)
        else Inr (Inr (map DownloadWorker_new free)))"
proof -
  let ?hs = "hosts_in_possession (resOf db p)"
  have r: "deref_res db p = Inr (resOf db p)" by (rule deref_res_ok [OF db_inv_res [OF assms]])
  have m: "mapE (deref_host db) ?hs = Inr (map (hostOf db) ?hs)"
    by (rule mapE_Inr) (rule deref_host_ok [OF db_inv_host [OF assms(1) db_inv_in_possession [OF assms]]])
  have z: "map fst (filter (\<lambda>(q, h). \<not> is_retarded now h) (zip hs (map (hostOf db) hs))) =
      filter (\<lambda>h. \<not> is_retarded now (hostOf db h)) hs" for hs
    by (induction hs) simp_all
  show ?thesis unfolding create_workers_def r bindE_simps Let_def m z by simp
qed

section \<open>Starting a download\<close>

text \<open>The texts of the exceptions, and the line \<open>handle_exception\<close> logs.\<close>

fun what_text :: "create_error \<Rightarrow> string" where
  "what_text No_host_has_resource = ''No host has a resource''"
| "what_text No_host_available = ''Failed to init: no host available''"

definition handle_exception :: "string \<Rightarrow> string \<Rightarrow> string" where
  "handle_exception name what =
     ''Failed to download resource: '' @ name @ [CHR 0x0A] @ '' detailed error: '' @ what @ [CHR 0x0A]"

text \<open>The constructor and \<open>init\<close> up to the control loop: the line logged on failure, or the
  system of threads.\<close>

definition DownloadService_init :: "clock \<Rightarrow> 'ip database \<Rightarrow> rptr \<Rightarrow> (string + 'ip dsys) result" where
  "DownloadService_init now db p =
     bindE (deref_res db p) (\<lambda>resource.
     bindE (create_workers now db p) (\<lambda>created.
       case created of
         Inl e \<Rightarrow> Inr (Inl (handle_exception (res_name resource) (what_text e)))
       | Inr ws \<Rightarrow> Inr (Inr (init_download resource (hostOf db) ws))))"

lemma DownloadService_init_starts:
  assumes "db_inv db" "p \<in> set (resources db)" "DownloadService_init now db p = Inr (Inr s0)"
  obtains ps where "s0 = init_download (resOf db p) (hostOf db) (map DownloadWorker_new ps)"
    "ps \<noteq> []" "set ps \<subseteq> set (hosts_in_possession (resOf db p))"
proof -
  have r: "deref_res db p = Inr (resOf db p)" by (rule deref_res_ok [OF db_inv_res [OF assms(1,2)]])
  let ?ps = "filter (\<lambda>h. \<not> is_retarded now (hostOf db h)) (hosts_in_possession (resOf db p))"
  have "s0 = init_download (resOf db p) (hostOf db) (map DownloadWorker_new ?ps) \<and> ?ps \<noteq> []"
    using assms(3) r create_workers_eq [OF assms(1,2), of now]
    by (auto simp: DownloadService_init_def Let_def split: if_splits)
  with that [of ?ps] show thesis by auto
qed

lemma DownloadService_init_runs:
  assumes "db_inv db" "p \<in> set (resources db)" "h \<in> set (hosts_in_possession (resOf db p))"
    and "\<not> is_retarded now (hostOf db h)"
  shows "\<exists>s0. DownloadService_init now db p = Inr (Inr s0) \<and> h \<in> w_host ` set (ds_workers s0)"
proof -
  have r: "deref_res db p = Inr (resOf db p)" by (rule deref_res_ok [OF db_inv_res [OF assms(1,2)]])
  let ?ps = "filter (\<lambda>h. \<not> is_retarded now (hostOf db h)) (hosts_in_possession (resOf db p))"
  have "h \<in> set ?ps" using assms(3,4) by simp
  then have "?ps \<noteq> []" by (metis empty_iff empty_set)
  moreover have "hosts_in_possession (resOf db p) \<noteq> []" using assms(3) by auto
  ultimately have "DownloadService_init now db p =
      Inr (Inr (init_download (resOf db p) (hostOf db) (map DownloadWorker_new ?ps)))"
    using r create_workers_eq [OF assms(1,2), of now] by (simp add: DownloadService_init_def)
  moreover have "h \<in> w_host ` set (map DownloadWorker_new ?ps)"
    using \<open>h \<in> set ?ps\<close> by (force simp: DownloadWorker_new_def image_iff)
  ultimately show ?thesis by (simp add: init_download_def)
qed

section \<open>The peers' side\<close>

text \<open>
  A complete reply is what the \<open>RequestWorker\<close> of a peer with the file on its disk answers
  to the request the worker sends for its segment.
\<close>

definition answered_by ::
    "endian \<Rightarrow> endian \<Rightarrow> string \<Rightarrow> Uint8 list \<Rightarrow> CompleteResource \<Rightarrow> SegmentId \<Rightarrow> Uint8 list \<Rightarrow> bool" where
  "answered_by e e' name f cr n bs \<longleftrightarrow>
     (\<exists>w fm req w' fm'. serves name f w fm \<and> request_segment True e cr n = Inr (Some req) \<and>
        handle_read e' (Read_Data req) w fm = Some (Inr (Some w', fm')) \<and>
        rw_pending w' = Writing (Some (map Some bs)))"

fun served :: "endian \<Rightarrow> string \<Rightarrow> Uint8 list \<Rightarrow> dl_event \<Rightarrow> 'ip dsys \<Rightarrow> bool" where
  "served e name f (Receive i bs) s =
     (case w_pc (ds_workers s ! i) of
        Downloading n \<Rightarrow> \<exists>e'. answered_by e e' name f (ds_cr s) n bs
      | _ \<Rightarrow> True)"
| "served e name f _ s = True"

lemma answered_honest:
  assumes "answered_by e e' (res_name r) f cr n bs" "header_ok r" "cr_resource cr = r"
    and "length f = unat (res_size r)" "unat (res_size r) < 2 ^ 26" "unat n < seg_count cr"
  shows "bs = file_block f (unat n)"
proof -
  obtain w fm req w' fm' where a: "serves (res_name r) f w fm" "serialize_segment_request e cr n = Inr req"
      "handle_read e' (Read_Data req) w fm = Some (Inr (Some w', fm'))"
      "rw_pending w' = Writing (Some (map Some bs))"
    using assms(1) by (auto simp: answered_by_def request_segment_sent)
  have "unat n < unat (calc_segments_count r)" using assms(3,6) by (simp add: seg_count_def)
  from serve_one [OF a(1) assms(2-5) this a(2), of e'] a(3,4)
  have "map Some bs = map Some (file_block f (unat n))" by auto
  then show ?thesis by (metis injI inj_map_eq_map option.inject)
qed

lemma served_honest:
  assumes "dl_inv r f s" "fire ev s = Some x" "served e (res_name r) f ev s"
    and "header_ok r" "length f = unat (res_size r)" "unat (res_size r) < 2 ^ 26"
  shows "honest f ev s"
proof (cases ev)
  case (Receive i bs)
  with assms(2) obtain n where n: "i < length (ds_workers s)" "w_pc (ds_workers s ! i) = Downloading n"
    by (auto split: if_splits thread_pc.splits)
  then have "held (w_pc (ds_workers s ! i)) = Some n" by simp
  with assms(1) n(1) have lt: "unat n < seg_count (ds_cr s)" "cr_resource (ds_cr s) = r"
    by (auto simp: dl_inv_def workers_ok_def held_ok_def)
  obtain e' where "answered_by e e' (res_name r) f (ds_cr s) n bs"
    using assms(3) Receive n by auto
  from answered_honest [OF this assms(4) lt(2) assms(5,6) lt(1)] Receive n show ?thesis by simp
qed simp_all

lemma served_run_honest:
  assumes "run_under (\<lambda>e s. no_timeout e s \<and> served en (res_name r) f e s)
      (init_download r hs (map DownloadWorker_new ps)) s"
    and "header_ok r" "length f = unat (res_size r)" "unat (res_size r) < 2 ^ 26"
  shows "run_under (\<lambda>e s. no_timeout e s \<and> honest f e s)
      (init_download r hs (map DownloadWorker_new ps)) s"
  using assms(1)
proof (induction rule: run_under.induct)
  case (step s e s')
  have "honest f e s"
    using served_honest [OF run_under_no_timeout_inv [OF step.IH] step.hyps(3) _ assms(2-4)] step.hyps(2) by blast
  with step show ?case by (blast intro: run_under.step)
qed (rule run_under.start)

text \<open>Conversely, peers with the file can give every honest reply.\<close>

lemma honest_answered:
  assumes "header_ok r" "cr_resource cr = r" "length f = unat (res_size r)" "unat (res_size r) < 2 ^ 26"
    and "unat n < seg_count cr"
  shows "answered_by e e' (res_name r) f cr n (file_block f (unat n))"
proof -
  let ?fm = "FileManager_new [res_name r \<mapsto> f]"
  have s: "serves (res_name r) f (snd (start True (RequestWorker_new []))) ?fm"
    by (rule started_worker_serves) (simp_all add: FileManager_new_def write_locked_def read_locked_def)
  obtain hdr where "generate_resource_header e (cr_resource cr) = Inr hdr"
    using header.enc_width [of r e] assms(1,2) by blast
  then obtain req where req: "serialize_segment_request e cr n = Inr req"
    by (simp add: serialize_segment_request_def)
  have "unat n < unat (calc_segments_count r)" using assms(2,5) by (simp add: seg_count_def)
  from serve_one [OF s assms(1-4) this req, of e'] s req show ?thesis
    unfolding answered_by_def request_segment_sent by blast
qed

lemma honest_served:
  assumes "dl_inv r f s" "fire ev s = Some x" "honest f ev s"
    and "header_ok r" "length f = unat (res_size r)" "unat (res_size r) < 2 ^ 26"
  shows "served e (res_name r) f ev s"
proof (cases ev)
  case (Receive i bs)
  with assms(2) obtain n where n: "i < length (ds_workers s)" "w_pc (ds_workers s ! i) = Downloading n"
    by (auto split: if_splits thread_pc.splits)
  then have "held (w_pc (ds_workers s ! i)) = Some n" by simp
  with assms(1) n(1) have lt: "unat n < seg_count (ds_cr s)" "cr_resource (ds_cr s) = r"
    by (auto simp: dl_inv_def workers_ok_def held_ok_def)
  have "bs = file_block f (unat n)" using assms(3) Receive n by simp
  with honest_answered [OF assms(4) lt(2) assms(5,6) lt(1), of e Little] Receive n show ?thesis by auto
qed simp_all

lemma honest_run_served:
  assumes "run_under (\<lambda>e s. no_timeout e s \<and> honest f e s)
      (init_download r hs (map DownloadWorker_new ps)) s"
    and "header_ok r" "length f = unat (res_size r)" "unat (res_size r) < 2 ^ 26"
  shows "run_under (\<lambda>e s. no_timeout e s \<and> served en (res_name r) f e s)
      (init_download r hs (map DownloadWorker_new ps)) s"
  using assms(1)
proof (induction rule: run_under.induct)
  case (step s e s')
  have "served en (res_name r) f e s"
    using honest_served [OF run_under_no_timeout_inv [OF step.hyps(1)] step.hyps(3) _ assms(2-4)] step.hyps(2)
    by blast
  with step show ?case by (blast intro: run_under.step)
qed (rule run_under.start)

end
