(* ===== verification/Udp_Client.thy ===== *)
theory Udp_Client
  imports Database_Invariant
begin

text \<open>
  \<^verbatim>\<open>include/UdpClient.h\<close>, \<^verbatim>\<open>src/UdpClient.cpp\<close>: the sender of datagrams. Datagrams wait in
  \<open>tx_queue_\<close>; the front one is handed to the socket by \<open>transmit\<close> and removed when the
  send completes. The socket is the list of datagrams it was given and whether one of them
  is in flight. The beacon packs the headers of the local files, at most three to a datagram.
\<close>

section \<open>State and sending\<close>

record Udp_Client =
  tx_queue :: "Uint8 list list"
  in_flight :: bool
  handed_over :: "Uint8 list list"
  expires_at :: nat
  beacon_timeout :: Uint32

definition Udp_Client_new :: "nat \<Rightarrow> Uint32 \<Rightarrow> Udp_Client" where
  "Udp_Client_new now timeout_c =
     \<lparr>tx_queue = [], in_flight = False, handed_over = [],
      expires_at = now + unat timeout_c, beacon_timeout = timeout_c\<rparr>"

definition transmit :: "Udp_Client \<Rightarrow> Udp_Client result" where
  "transmit c =
     (case tx_queue c of
        [] \<Rightarrow> Inl OutOfBounds
      | packet # _ \<Rightarrow>
          if packet = [] then Inl OutOfBounds
          else Inr (c\<lparr>in_flight := True, handed_over := handed_over c @ [packet]\<rparr>))"

definition send :: "Uint8 list \<Rightarrow> Udp_Client \<Rightarrow> Udp_Client result" where
  "send packet c =
     (let queue_empty = (tx_queue c = []);
          c = c\<lparr>tx_queue := tx_queue c @ [packet]\<rparr>
      in if queue_empty then transmit c else Inr c)"

definition write_handler :: "bool \<Rightarrow> Udp_Client \<Rightarrow> Udp_Client result" where
  "write_handler error c =
     (if tx_queue c = [] then Inl OutOfBounds
      else let c = c\<lparr>tx_queue := tl (tx_queue c), in_flight := False\<rparr>
           in if \<not> error then (if tx_queue c \<noteq> [] then transmit c else Inr c)
              else Inr c)"

text \<open>The completion of a send: the client still exists, and how the operation ended.\<close>

datatype send_end = Sent | Send_Error | Send_Aborted

definition write_callback :: "bool \<Rightarrow> send_end \<Rightarrow> Udp_Client \<Rightarrow> Udp_Client result" where
  "write_callback alive ended c =
     (if alive \<and> ended \<noteq> Send_Aborted then write_handler (ended = Send_Error) c
      else Inr (c\<lparr>in_flight := False\<rparr>))"

section \<open>Datagrams\<close>

definition revoke_file :: "endian \<Rightarrow> Resource \<Rightarrow> Udp_Client \<Rightarrow> Udp_Client result" where
  "revoke_file e resource c =
     bindE (generate_resource_header e (Resource_copy resource)) (\<lambda>res.
       send ([REVOKE] @ res) c)"

text \<open>One beacon datagram from the headers popped off the back of the list.\<close>

definition beacon_packet :: "endian \<Rightarrow> Uint8 list list \<Rightarrow> Uint8 list" where
  "beacon_packet e popped =
     [FILE_LIST] @ store_word e (hton e (word_of_nat (length popped) :: Uint64)) @ concat popped"

text \<open>The loop of \<open>fire_beacon\<close>.\<close>

function beacon_loop :: "endian \<Rightarrow> Uint8 list list \<Rightarrow> Udp_Client \<Rightarrow> Udp_Client result" where
  "beacon_loop e headers c =
     (let i = (if length headers \<ge> BEACON_MAX_COUNT then BEACON_MAX_COUNT else length headers)
      in if i > 0
         then bindE (send (beacon_packet e (take i (rev headers))) c)
                (let rest = take (length headers - i) headers
                 in if rest = [] then Inr else beacon_loop e rest)
         else Inr c)"
  by pat_completeness auto
termination
  by (relation "measure (\<lambda>(e, headers, c). length headers)") (auto simp: Let_def split: if_splits)

declare beacon_loop.simps [simp del]

definition fire_beacon ::
    "endian \<Rightarrow> hptr set \<Rightarrow> 'ip database \<Rightarrow> Udp_Client \<Rightarrow> ('ip database \<times> Udp_Client) result" where
  "fire_beacon e pinned db c =
     bindE (generate_database_headers e db) (\<lambda>headers.
     bindE (beacon_loop e headers c) (\<lambda>c.
     bindE (check_for_gone_hosts pinned LEFT_MARGIN db) (\<lambda>db.
       Inr (db, c\<lparr>expires_at := expires_at c + unat (beacon_timeout c)\<rparr>))))"

section \<open>The queue\<close>

text \<open>
  The front datagram is in flight whenever the queue is not empty. An error breaks this for
  good, see \<open>send_error_silences\<close>.
\<close>

definition client_ok :: "Udp_Client \<Rightarrow> bool" where
  "client_ok c \<longleftrightarrow> in_flight c = (tx_queue c \<noteq> []) \<and> [] \<notin> set (tx_queue c) \<and>
     (tx_queue c \<noteq> [] \<longrightarrow> handed_over c \<noteq> [] \<and> last (handed_over c) = hd (tx_queue c))"

text \<open>Everything ever accepted: what the socket was given and what still waits behind it.\<close>

definition accepted :: "Udp_Client \<Rightarrow> Uint8 list list" where
  "accepted c = handed_over c @ tl (tx_queue c)"

lemma send_ok:
  assumes "client_ok c" "packet \<noteq> []"
  shows "\<exists>c'. send packet c = Inr c' \<and> client_ok c' \<and> accepted c' = accepted c @ [packet]"
proof (cases "tx_queue c")
  case Nil
  with assms show ?thesis by (simp add: send_def transmit_def Let_def client_ok_def accepted_def)
next
  case (Cons p ps)
  with assms show ?thesis by (auto simp: send_def Let_def client_ok_def accepted_def)
qed

lemma send_timer:
  "send packet c = Inr c' \<Longrightarrow> expires_at c' = expires_at c \<and> beacon_timeout c' = beacon_timeout c"
  by (auto simp: send_def transmit_def Let_def split: if_splits list.splits)

text \<open>What holds whatever the sends end in; it is all a caller needs not to fault.\<close>

definition client_safe :: "Udp_Client \<Rightarrow> bool" where
  "client_safe c \<longleftrightarrow> [] \<notin> set (tx_queue c) \<and> (in_flight c \<longrightarrow> tx_queue c \<noteq> [])"

lemma client_ok_safe: "client_ok c \<Longrightarrow> client_safe c"
  by (simp add: client_ok_def client_safe_def)

lemma send_safe:
  "client_safe c \<Longrightarrow> packet \<noteq> [] \<Longrightarrow> \<exists>c'. send packet c = Inr c' \<and> client_safe c'"
  by (cases "tx_queue c") (auto simp: client_safe_def send_def transmit_def Let_def)

lemma completion_safe:
  assumes "client_safe c" "in_flight c"
  shows "\<exists>c'. write_callback alive ended c = Inr c' \<and> client_safe c'"
proof -
  from assms obtain p ps where "tx_queue c = p # ps" by (cases "tx_queue c") (auto simp: client_safe_def)
  with assms show ?thesis
    by (cases ps) (auto simp: client_safe_def write_callback_def write_handler_def transmit_def Let_def)
qed

lemma sent_ok:
  assumes "client_ok c" "in_flight c"
  shows "\<exists>c'. write_callback True Sent c = Inr c' \<and> client_ok c' \<and> accepted c' = accepted c \<and>
    tx_queue c' = tl (tx_queue c)"
proof -
  from assms obtain p ps where q: "tx_queue c = p # ps" by (cases "tx_queue c") (auto simp: client_ok_def)
  show ?thesis
  proof (cases ps)
    case Nil
    with q assms show ?thesis
      by (simp add: write_callback_def write_handler_def Let_def client_ok_def accepted_def)
  next
    case (Cons p' ps')
    with q assms show ?thesis
      by (auto simp: write_callback_def write_handler_def transmit_def Let_def client_ok_def accepted_def)
  qed
qed

text \<open>What a client of the sender sees: datagrams in, completions, datagrams out.\<close>

datatype client_call = Send "Uint8 list" | Completed send_end

fun client_step :: "client_call \<Rightarrow> Udp_Client \<Rightarrow> Udp_Client result" where
  "client_step (Send packet) c = send packet c"
| "client_step (Completed ended) c = (if in_flight c then write_callback True ended c else Inr c)"

fun sends :: "client_call list \<Rightarrow> Uint8 list list" where
  "sends [] = []"
| "sends (Send packet # cs) = packet # sends cs"
| "sends (Completed _ # cs) = sends cs"

definition valid_call :: "client_call \<Rightarrow> bool" where
  "valid_call x = (case x of Send packet \<Rightarrow> packet \<noteq> [] | Completed ended \<Rightarrow> ended = Sent)"

lemma client_step_ok:
  assumes "client_ok c" "valid_call x"
  shows "\<exists>c'. client_step x c = Inr c' \<and> client_ok c' \<and> accepted c' = accepted c @ sends [x]"
proof (cases x)
  case (Send packet)
  with assms send_ok show ?thesis by (simp add: valid_call_def)
next
  case (Completed ended)
  with assms sent_ok [of c] show ?thesis by (auto simp: valid_call_def)
qed

lemma sends_Cons: "sends (x # xs) = sends [x] @ sends xs"
  by (cases x) simp_all

lemma client_run_ok:
  "client_ok c \<Longrightarrow> list_all valid_call cs \<Longrightarrow>
   \<exists>c'. foldE client_step cs c = Inr c' \<and> client_ok c' \<and> accepted c' = accepted c @ sends cs"
proof (induction cs arbitrary: c)
  case (Cons x cs)
  from Cons.prems client_step_ok [of c x] obtain c1
    where "client_step x c = Inr c1" "client_ok c1" "accepted c1 = accepted c @ sends [x]" by auto
  with Cons.IH [of c1] Cons.prems show ?case by (simp add: sends_Cons [of x cs])
qed simp

text \<open>C18: As long as sends succeed, the sender hands every datagram to the socket once and in
  the order of the calls, with at most one in flight: what was handed over plus what waits
  behind the front is exactly what was accepted, and nothing waits when nothing is in flight.\<close>

theorem datagrams_in_order:
  assumes "list_all valid_call cs"
  shows "\<exists>c. foldE client_step cs (Udp_Client_new now t) = Inr c \<and>
    handed_over c @ tl (tx_queue c) = sends cs \<and> (\<not> in_flight c \<longrightarrow> handed_over c = sends cs)"
proof -
  have ok: "client_ok (Udp_Client_new now t)" "accepted (Udp_Client_new now t) = []"
    by (simp_all add: client_ok_def accepted_def Udp_Client_new_def)
  from client_run_ok [OF ok(1) assms] ok(2) obtain c
    where "foldE client_step cs (Udp_Client_new now t) = Inr c" "client_ok c" "accepted c = sends cs"
    by auto
  then show ?thesis by (auto simp: client_ok_def accepted_def)
qed

theorem datagrams_in_order_witness:
  "\<exists>c. foldE client_step [Send [1], Send [2, 3], Completed Sent] (Udp_Client_new 0 5) = Inr c \<and>
     handed_over c @ tl (tx_queue c) = [[1], [2, 3]]"
  using datagrams_in_order [of "[Send [1], Send [2, 3], Completed Sent]" 0 5]
  by (auto simp: valid_call_def)

section \<open>After an error\<close>

definition silenced :: "Udp_Client \<Rightarrow> bool" where
  "silenced c \<longleftrightarrow> \<not> in_flight c \<and> tx_queue c \<noteq> []"

lemma silenced_step:
  "silenced c \<Longrightarrow> \<exists>c'. client_step x c = Inr c' \<and> silenced c' \<and> handed_over c' = handed_over c"
  by (cases x) (auto simp: silenced_def send_def Let_def)

lemma silenced_run:
  "silenced c \<Longrightarrow> \<exists>c'. foldE client_step cs c = Inr c' \<and> silenced c' \<and> handed_over c' = handed_over c"
proof (induction cs arbitrary: c)
  case (Cons x cs)
  from silenced_step [OF Cons.prems, of x] Cons.IH show ?case by (metis bindE_simps(1) foldE.simps(2))
qed simp

text \<open>C26: One failed or aborted send silences the host: if a datagram fails while another one
  waits behind it, or is aborted at all, the queue stays non-empty with nothing in flight, and
  no datagram of any later call is ever handed to the socket.\<close>

theorem send_error_silences:
  assumes "client_ok c" "in_flight c"
    and "ended = Send_Aborted \<or> ended = Send_Error \<and> 2 \<le> length (tx_queue c)"
  shows "\<exists>c'. foldE client_step (Completed ended # cs) c = Inr c' \<and> handed_over c' = handed_over c"
proof -
  obtain p ps where q: "tx_queue c = p # ps"
    using assms(1,2) by (cases "tx_queue c") (auto simp: client_ok_def)
  have "\<exists>c1. client_step (Completed ended) c = Inr c1 \<and> silenced c1 \<and> handed_over c1 = handed_over c"
    using assms q by (auto simp: write_callback_def write_handler_def Let_def silenced_def)
  then show ?thesis using silenced_run by fastforce
qed

theorem send_error_silences_witness:
  "\<exists>c c'. foldE client_step [Send [1], Send [2]] (Udp_Client_new 0 5) = Inr c \<and> in_flight c \<and>
     foldE client_step [Completed Send_Error, Send [3], Send [4]] c = Inr c' \<and> handed_over c' = [[1]]"
proof -
  let ?c = "(Udp_Client_new 0 5)\<lparr>tx_queue := [[1], [2]], in_flight := True, handed_over := [[1]]\<rparr>"
  have "foldE client_step [Send [1], Send [2]] (Udp_Client_new 0 5) = Inr ?c"
    by (simp add: Udp_Client_new_def send_def transmit_def Let_def)
  moreover have "client_ok ?c" by (simp add: client_ok_def)
  ultimately show ?thesis
    using send_error_silences [of ?c Send_Error "[Send [3], Send [4]]"] by simp
qed

section \<open>The beacon\<close>

text \<open>The groups of at most three headers, from the back of the list.\<close>

function beacon_groups :: "'a list \<Rightarrow> 'a list list" where
  "beacon_groups xs = (if xs = [] then [] else take BEACON_MAX_COUNT xs # beacon_groups (drop BEACON_MAX_COUNT xs))"
  by pat_completeness auto
termination
  by (relation "measure length") auto

declare beacon_groups.simps [simp del]

lemma beacon_groups_props:
  "concat (beacon_groups xs) = xs \<and>
   (\<forall>g \<in> set (beacon_groups xs). g \<noteq> [] \<and> length g \<le> BEACON_MAX_COUNT \<and> set g \<subseteq> set xs)"
proof (induction xs rule: beacon_groups.induct)
  case (1 xs)
  then show ?case
    using set_drop_subset [of 3 xs] set_take_subset [of 3 xs]
    by (cases "xs = []") (auto simp: beacon_groups.simps [of xs] beacon_groups.simps [of "[]"])
qed

lemma beacon_packet_nonempty: "beacon_packet e g \<noteq> []"
  by (simp add: beacon_packet_def)

lemma length_beacon_packet:
  assumes "\<forall>h \<in> set g. length h = RESOURCE_HEADER_SIZE"
  shows "length (beacon_packet e g) = 9 + length g * RESOURCE_HEADER_SIZE"
proof -
  have "length (concat g) = length g * RESOURCE_HEADER_SIZE"
    using assms by (induction g) auto
  then show ?thesis by (simp add: beacon_packet_def)
qed

text \<open>The loop sends the groups in order.\<close>

lemma beacon_loop_eq:
  "beacon_loop e headers c = foldE send (map (beacon_packet e) (beacon_groups (rev headers))) c"
proof (induction "length headers" arbitrary: headers c rule: less_induct)
  case less
  show ?case
  proof (cases "headers = []")
    case True
    then show ?thesis by (simp add: beacon_loop.simps [of e "[]" c] beacon_groups.simps)
  next
    case False
    define i where "i = (if length headers \<ge> BEACON_MAX_COUNT then BEACON_MAX_COUNT else length headers)"
    have i: "0 < i" "take i (rev headers) = take BEACON_MAX_COUNT (rev headers)"
      using False by (auto simp: i_def)
    define rest where "rest = take (length headers - i) headers"
    have rest: "rev rest = drop BEACON_MAX_COUNT (rev headers)"
      by (simp add: rest_def i_def rev_take)
    have groups: "beacon_groups (rev headers) =
        take BEACON_MAX_COUNT (rev headers) # beacon_groups (rev rest)"
      using False rest by (subst beacon_groups.simps) simp
    have step: "beacon_loop e headers c =
        bindE (send (beacon_packet e (take BEACON_MAX_COUNT (rev headers))) c)
          (if rest = [] then Inr else beacon_loop e rest)"
      unfolding beacon_loop.simps [of e headers c] Let_def i_def [symmetric] rest_def [symmetric]
      using i by simp
    have "length rest < length headers" using i(1) False by (simp add: rest_def)
    from less.hyps [OF this] have "(if rest = [] then Inr else beacon_loop e rest) =
        foldE send (map (beacon_packet e) (beacon_groups (rev rest)))"
      by (auto simp: beacon_groups.simps [of "[]"])
    with step groups show ?thesis by simp
  qed
qed

lemma beacon_loop_ok:
  assumes "client_ok c"
  shows "\<exists>c'. beacon_loop e headers c = Inr c' \<and> client_ok c' \<and>
     accepted c' = accepted c @ map (beacon_packet e) (beacon_groups (rev headers)) \<and>
     expires_at c' = expires_at c \<and> beacon_timeout c' = beacon_timeout c"
proof -
  have ok: "\<exists>c'. foldE send ps c = Inr c' \<and> client_ok c' \<and> accepted c' = accepted c @ ps \<and>
      expires_at c' = expires_at c \<and> beacon_timeout c' = beacon_timeout c"
    if "[] \<notin> set ps" for ps
    using that assms
  proof (induction ps arbitrary: c)
    case (Cons p ps)
    then obtain c1 where c1: "send p c = Inr c1" "client_ok c1" "accepted c1 = accepted c @ [p]"
      using send_ok [of c p] by auto
    with Cons.IH [of c1] Cons.prems send_timer [OF c1(1)] show ?case by auto
  qed simp
  have "[] \<notin> set (map (beacon_packet e) (beacon_groups (rev headers)))"
    using beacon_packet_nonempty by (auto simp: eq_commute [of "[]"])
  from ok [OF this] show ?thesis by (simp only: beacon_loop_eq)
qed

lemma beacon_loop_safe:
  assumes "client_safe c"
  shows "\<exists>c'. beacon_loop e headers c = Inr c' \<and> client_safe c'"
  unfolding beacon_loop_eq
  by (rule foldE_invariant [where I = client_safe])
    (use assms in \<open>auto intro!: send_safe simp: beacon_packet_nonempty\<close>)

text \<open>The local files, and that their names fit the header.\<close>

definition local_files :: "'ip database \<Rightarrow> Resource list" where
  "local_files db = map (resOf db) (possesed_resources (hostOf db (my_host db)))"

definition advertisable :: "'ip database \<Rightarrow> bool" where
  "advertisable db \<longleftrightarrow> (\<forall>name len. (local_ip db, name, len) \<in> owners db \<longrightarrow>
     length name \<le> FILE_NAME_LENGHT \<and> nul_free name)"

lemma local_files_owned:
  assumes "db_inv db"
  shows "res_key ` set (local_files db) = {k. (local_ip db, k) \<in> owners db}"
  using owners_iff [OF assms db_inv_my_host [OF assms]]
  by (force simp: local_files_def local_ip_def image_iff)

lemma local_files_header_ok:
  assumes "db_inv db" "advertisable db" "r \<in> set (local_files db)"
  shows "header_ok r"
proof -
  have "(local_ip db, res_name r, res_size r) \<in> owners db"
    using local_files_owned [OF assms(1)] assms(3) by (auto simp: res_key_def)
  with assms(2) show ?thesis by (auto simp: advertisable_def header_ok_def)
qed

lemma local_headers:
  assumes "db_inv db" "advertisable db"
  obtains headers where "generate_database_headers e db = Inr headers"
    "\<forall>h \<in> set headers. length h = RESOURCE_HEADER_SIZE"
    "\<And>e'. map (\<lambda>h. res_key (Resource_from_header e' h)) headers = map res_key (local_files db)"
proof -
  have gen: "generate_database_headers e db = mapE (generate_resource_header e) (local_files db)"
    by (simp add: generate_database_headers_eq [OF assms(1)] local_files_def)
  have ok: "\<forall>r \<in> set (local_files db). header_ok r" using local_files_header_ok [OF assms] by blast
  obtain headers where h: "mapE (generate_resource_header e) (local_files db) = Inr headers"
      "\<forall>h \<in> set headers. length h = RESOURCE_HEADER_SIZE"
    using header.mapE_enc [OF ok, of e] by blast
  moreover have "map (\<lambda>h. res_key (Resource_from_header e' h)) headers = map res_key (local_files db)" for e'
    using header.mapE_enc [OF ok, of e e'] h(1) by auto
  ultimately show thesis using that gen by metis
qed

text \<open>C14: A beacon advertises every local file exactly once: \<open>fire_beacon\<close> never faults on a
  database in a reachable state whose local names fit the header, hands its datagrams to the
  queue after those already accepted, and their headers, put together, are the headers of the
  local files, newest first; each datagram has one to three of them and fits the receive
  buffer of a peer. The database is unchanged and the timer is set one interval later.\<close>

theorem beacon_advertises_all:
  assumes "db_inv db" "advertisable db" "client_ok c"
  shows "\<exists>headers c' groups. generate_database_headers e db = Inr headers \<and>
    map (\<lambda>h. res_key (Resource_from_header e' h)) headers = map res_key (local_files db) \<and>
    fire_beacon e pinned db c = Inr (db, c') \<and> client_ok c' \<and>
    expires_at c' = expires_at c + unat (beacon_timeout c) \<and>
    accepted c' = accepted c @ map (beacon_packet e) groups \<and> concat groups = rev headers \<and>
    (\<forall>g \<in> set groups. 1 \<le> length g \<and> length g \<le> BEACON_MAX_COUNT \<and>
       length (beacon_packet e g) \<le> UDP_SERV_BUFFER_SIZE)"
proof -
  obtain headers where headers: "generate_database_headers e db = Inr headers"
      "\<forall>h \<in> set headers. length h = RESOURCE_HEADER_SIZE"
      "map (\<lambda>h. res_key (Resource_from_header e' h)) headers = map res_key (local_files db)"
    using local_headers [OF assms(1,2)] by metis
  let ?groups = "beacon_groups (rev headers)"
  obtain c1 where c1: "beacon_loop e headers c = Inr c1" "client_ok c1"
      "accepted c1 = accepted c @ map (beacon_packet e) ?groups"
      "expires_at c1 = expires_at c" "beacon_timeout c1 = beacon_timeout c"
    using beacon_loop_ok [OF assms(3)] by blast
  let ?c = "c1\<lparr>expires_at := expires_at c1 + unat (beacon_timeout c1)\<rparr>"
  have "fire_beacon e pinned db c = Inr (db, ?c)"
    using headers(1) c1(1) check_for_gone_hosts_noop [OF assms(1), of LEFT_MARGIN pinned]
    by (simp add: fire_beacon_def)
  moreover have "client_ok ?c" "accepted ?c = accepted c @ map (beacon_packet e) ?groups"
      "expires_at ?c = expires_at c + unat (beacon_timeout c)"
    using c1 by (simp_all add: client_ok_def accepted_def)
  moreover have "1 \<le> length g \<and> length g \<le> BEACON_MAX_COUNT \<and>
      length (beacon_packet e g) \<le> UDP_SERV_BUFFER_SIZE" if "g \<in> set ?groups" for g
  proof -
    have g: "g \<noteq> []" "length g \<le> 3" "set g \<subseteq> set headers"
      using beacon_groups_props [of "rev headers"] that by auto
    then have "length (beacon_packet e g) = 9 + length g * 264"
      using length_beacon_packet [of g e] headers(2) by auto
    with g show ?thesis by (simp add: Suc_le_eq)
  qed
  ultimately show ?thesis using beacon_groups_props [of "rev headers"] headers(1,3) by blast
qed

text \<open>A beacon leaves the database as it is.\<close>

lemma fire_beacon_cases:
  assumes "fire_beacon e pinned db c = Inr (db', c')" "db_inv db"
  obtains headers c1 where "beacon_loop e headers c = Inr c1" "db' = db"
    "c' = c1\<lparr>expires_at := expires_at c1 + unat (beacon_timeout c1)\<rparr>"
  using assms(1) check_for_gone_hosts_noop [OF assms(2), of LEFT_MARGIN pinned]
  by (auto simp: fire_beacon_def bindE_Inr_iff)

lemma advertising_database:
  obtains db where "db_inv db" "advertisable db" "owners db = {(7 :: nat, ''XD'', 0)}" "local_ip db = 7"
proof -
  obtain db where db: "db_inv db" "abs_db db = fold spec_call [Add_File_Local (Resource_new ''XD'' 0 ''./'')]
      (init_registry (7 :: nat))"
    by (rule reachable_database)
  then have "owners db = {(7, ''XD'', 0)}" "local_ip db = 7"
    by (simp_all add: abs_db_def spec_add_def init_registry_def res_key_def Resource_new_def)
  with db(1) show thesis by (intro that [of db]) (simp_all add: advertisable_def nul_free_def)
qed

theorem beacon_advertises_all_witness:
  "\<exists>(db :: nat database) headers c' groups. generate_database_headers Little db = Inr headers \<and>
    owners db = {(7, ''XD'', 0)} \<and> fire_beacon Little {} db (Udp_Client_new 0 5) = Inr (db, c') \<and>
    expires_at c' = 10 \<and> accepted c' = map (beacon_packet Little) groups \<and> concat groups = rev headers"
proof -
  obtain db :: "nat database" where db: "db_inv db" "advertisable db" "owners db = {(7, ''XD'', 0)}"
    by (rule advertising_database)
  have "client_ok (Udp_Client_new 0 5)" by (simp add: client_ok_def Udp_Client_new_def)
  from beacon_advertises_all [OF db(1,2) this, of Little Big "{}"] db(3) show ?thesis
    by (fastforce simp: Udp_Client_new_def accepted_def)
qed

end
