(* ===== verification/Udp_Server.thy ===== *)
theory Udp_Server
  imports Udp_Client
begin

text \<open>
  \<^verbatim>\<open>UdpServer.h/.cpp\<close> and \<^verbatim>\<open>UdpModule.h/.cpp\<close>: the receiver of beacons and revocations, and the
  module that owns both ends. The receive buffer has room for the largest beacon and keeps its
  contents between datagrams. The handler is the whole reaction to one datagram; the sender's
  address and the octets are its arguments.
\<close>

section \<open>The server\<close>

record Udp_Server =
  recv_buffer :: "Uint8 list"
  receiving :: bool

definition Udp_Server_new :: Udp_Server where
  "Udp_Server_new = \<lparr>recv_buffer = replicate UDP_SERV_BUFFER_SIZE 0, receiving = True\<rparr>"

text \<open>A datagram that is too long is cut off (\<open>message_size\<close>), which the handler accepts.\<close>

datatype 'ip recv_event = Receive_Error | Received 'ip "Uint8 list"

definition fill_buffer :: "Uint8 list \<Rightarrow> Uint8 list \<Rightarrow> Uint8 list" where
  "fill_buffer bytes buf = take (length buf) (bytes @ drop (length bytes) buf)"

text \<open>The loop over the advertised resources, from offset \<open>off\<close>.\<close>

fun read_headers :: "endian \<Rightarrow> Uint8 list \<Rightarrow> nat \<Rightarrow> nat \<Rightarrow> Resource list result" where
  "read_headers e buf off 0 = Inr []"
| "read_headers e buf off (Suc n) =
     bindE (mem_range buf off RESOURCE_HEADER_SIZE) (\<lambda>h.
     bindE (read_headers e buf (off + RESOURCE_HEADER_SIZE) n) (\<lambda>rs.
       Inr (Resource_copy (Resource_from_header e h) # rs)))"

definition handle_datagram :: "endian \<Rightarrow> 'ip \<Rightarrow> Uint8 list \<Rightarrow> 'ip database \<Rightarrow> 'ip database result" where
  "handle_datagram e ip buf db =
     (if buf ! 0 = FILE_LIST
      then let iter = hton e (load_word e (take 8 (drop 1 buf))) :: Uint64
           in bindE (read_headers e buf 9 (unat iter)) (\<lambda>resources. update_host ip resources db)
      else if buf ! 0 = REVOKE
      then bindE (mem_range buf 1 264) (\<lambda>h. revoke_resource (Resource_from_header e h) db)
      else Inr db)"

definition handle_receive ::
    "endian \<Rightarrow> 'ip recv_event \<Rightarrow> Udp_Server \<times> 'ip database \<Rightarrow> (Udp_Server \<times> 'ip database) result" where
  "handle_receive e ev = (\<lambda>(srv, db).
     (case ev of
        Receive_Error \<Rightarrow> Inr (srv\<lparr>receiving := False\<rparr>, db)
      | Received ip bytes \<Rightarrow>
          (let srv = srv\<lparr>recv_buffer := fill_buffer bytes (recv_buffer srv)\<rparr>
           in bindE (deref_host db (get_localhost db)) (\<lambda>me.
              bindE (if host_ip me \<noteq> ip then handle_datagram e ip (recv_buffer srv) db else Inr db)
                (\<lambda>db. Inr (srv\<lparr>receiving := True\<rparr>, db))))))"

section \<open>The module\<close>

text \<open>\<open>revoke_file\<close>: nothing happens before the client exists.\<close>

definition module_revoke_file ::
    "endian \<Rightarrow> Resource \<Rightarrow> Udp_Client option \<times> 'ip database \<Rightarrow> (Udp_Client option \<times> 'ip database) result" where
  "module_revoke_file e resource = (\<lambda>(ptr_client, db).
     (case ptr_client of
        None \<Rightarrow> Inr (None, db)
      | Some client \<Rightarrow>
          bindE (revoke_file e resource client) (\<lambda>client.
          bindE (revoke_resource resource db) (\<lambda>db. Inr (Some client, db)))))"

section \<open>Reading datagrams\<close>

lemma length_fill_buffer [simp]: "length (fill_buffer bytes buf) = length buf"
  by (simp add: fill_buffer_def)

lemma read_headers_bound:
  assumes "off \<le> length buf"
  shows "if off + n * 264 \<le> length buf
    then \<exists>rs. read_headers e buf off n = Inr rs
    else read_headers e buf off n = Inl OutOfBounds"
  using assms
proof (induction n arbitrary: off)
  case (Suc n)
  show ?case
  proof (cases "off + 264 \<le> length buf")
    case True
    with Suc.IH [of "off + 264"] show ?thesis
      by (auto simp: mem_range_def algebra_simps split: if_splits)
  next
    case False
    then show ?thesis by (simp add: mem_range_def)
  qed
qed simp

lemma read_headers_concat:
  assumes "\<forall>h \<in> set g. length h = 264" "off = length pre"
  shows "read_headers e (pre @ concat g @ rest) off (length g) =
    Inr (map (\<lambda>h. Resource_copy (Resource_from_header e h)) g)"
  using assms
proof (induction g arbitrary: pre off)
  case (Cons h g)
  then have "read_headers e ((pre @ h) @ concat g @ rest) (off + 264) (length g) =
      Inr (map (\<lambda>h. Resource_copy (Resource_from_header e h)) g)"
    by (intro Cons.IH) simp_all
  with Cons.prems show ?case by (simp add: mem_range_def)
qed simp

text \<open>The number of resources a beacon announces.\<close>

definition announced :: "endian \<Rightarrow> Uint8 list \<Rightarrow> nat" where
  "announced e buf = unat (hton e (load_word e (take 8 (drop 1 buf))) :: Uint64)"

lemma handle_datagram_safe:
  assumes "db_inv db" "length buf = UDP_SERV_BUFFER_SIZE"
  shows "if buf ! 0 = FILE_LIST \<and> BEACON_MAX_COUNT < announced e buf
    then handle_datagram e ip buf db = Inl OutOfBounds
    else \<exists>db'. handle_datagram e ip buf db = Inr db' \<and> db_inv db'"
proof -
  have hdrs: "if 3 < n then read_headers e buf 9 n = Inl OutOfBounds
      else \<exists>rs. read_headers e buf 9 n = Inr rs" for n
    using read_headers_bound [of 9 buf n e] assms(2) by (auto split: if_splits)
  consider "buf ! 0 = FILE_LIST" "3 < announced e buf" | "buf ! 0 = FILE_LIST" "\<not> 3 < announced e buf" |
    "buf ! 0 = REVOKE" | "buf ! 0 \<noteq> FILE_LIST" "buf ! 0 \<noteq> REVOKE" by blast
  then show ?thesis
  proof cases
    case 1
    with hdrs [of "announced e buf"] show ?thesis
      by (simp add: handle_datagram_def Let_def announced_def)
  next
    case 2
    with hdrs [of "announced e buf"] obtain rs where "read_headers e buf 9 (announced e buf) = Inr rs" by auto
    moreover obtain db' where "update_host ip rs db = Inr db'" "db_inv db'"
      using update_host_correct [OF assms(1)] by blast
    ultimately show ?thesis using 2 by (simp add: handle_datagram_def Let_def announced_def)
  next
    case 3
    moreover have "mem_range buf 1 264 = Inr (take 264 (drop 1 buf))" using assms(2) by (simp add: mem_range_def)
    moreover obtain db' where "revoke_resource (Resource_from_header e (take 264 (drop 1 buf))) db = Inr db'"
        "db_inv db'"
      using revoke_resource_correct [OF assms(1)] by blast
    ultimately show ?thesis by (simp add: handle_datagram_def)
  next
    case 4
    with assms(1) show ?thesis by (simp add: handle_datagram_def)
  qed
qed

lemma local_ip_deref:
  "db_inv db \<Longrightarrow> \<exists>me. deref_host db (get_localhost db) = Inr me \<and> host_ip me = local_ip db"
  by (simp add: get_localhost_def deref_my_host local_ip_def)

lemma handle_receive_eq:
  assumes "db_inv db"
  shows "handle_receive e (Received ip bytes) (srv, db) =
    (let buf = fill_buffer bytes (recv_buffer srv)
     in bindE (if ip \<noteq> local_ip db then handle_datagram e ip buf db else Inr db)
          (\<lambda>db. Inr (srv\<lparr>recv_buffer := buf, receiving := True\<rparr>, db)))"
  using local_ip_deref [OF assms] by (auto simp: handle_receive_def Let_def)

text \<open>C17: What a datagram can do to a host: in a reachable state of the database, whatever
  octets arrive from whatever address, the handler keeps the database's invariant and
  goes on receiving, except for one case: a beacon from another host that announces more than
  three resources makes it read past its buffer, whatever the length of the datagram.\<close>

theorem datagram_outcome:
  assumes "db_inv db" "length (recv_buffer srv) = UDP_SERV_BUFFER_SIZE"
    and "buf = fill_buffer bytes (recv_buffer srv)"
  shows "if ip \<noteq> local_ip db \<and> buf ! 0 = FILE_LIST \<and> BEACON_MAX_COUNT < announced e buf
    then handle_receive e (Received ip bytes) (srv, db) = Inl OutOfBounds
    else \<exists>db'. handle_receive e (Received ip bytes) (srv, db) =
           Inr (srv\<lparr>recv_buffer := buf, receiving := True\<rparr>, db') \<and> db_inv db'"
proof -
  have "length buf = UDP_SERV_BUFFER_SIZE" using assms(2,3) by simp
  from handle_datagram_safe [OF assms(1) this, of e ip] assms(1,3) show ?thesis
    unfolding handle_receive_eq [OF assms(1)] Let_def assms(3) [symmetric]
    by (cases "ip = local_ip db") (auto split: if_splits)
qed

definition greedy_beacon :: "Uint8 list" where
  "greedy_beacon = [FILE_LIST, 0, 0, 0, 0, 0, 0, 0, 4]"

theorem datagram_outcome_witness:
  "\<exists>db :: nat database. db_inv db \<and>
     handle_receive Little (Received 8 greedy_beacon) (Udp_Server_new, db) = Inl OutOfBounds"
proof -
  obtain db :: "nat database" where db: "db_inv db" "local_ip db = 7" by (rule advertising_database)
  let ?buf = "fill_buffer greedy_beacon (recv_buffer Udp_Server_new)"
  have buf: "?buf = greedy_beacon @ replicate 792 0"
    by (simp add: fill_buffer_def greedy_beacon_def Udp_Server_new_def)
  then have "take 8 (drop 1 ?buf) = [0, 0, 0, 0, 0, 0, 0, 4]" by (simp add: greedy_beacon_def)
  then have "hton Little (load_word Little (take 8 (drop 1 ?buf)) :: Uint64) =
      load_word Big [0, 0, 0, 0, 0, 0, 0, 4]"
    by (simp only:) (rule hton_load, simp_all)
  then have "announced Little ?buf = 4"
    unfolding announced_def by (simp add: load_word_def)
  moreover have "?buf ! 0 = FILE_LIST" unfolding buf by (simp add: greedy_beacon_def)
  ultimately have "handle_receive Little (Received 8 greedy_beacon) (Udp_Server_new, db) = Inl OutOfBounds"
    using datagram_outcome [OF db(1) _ refl, of Udp_Server_new 8 greedy_beacon Little] db(2)
    by (simp add: Udp_Server_new_def)
  with db(1) show ?thesis by blast
qed

section \<open>Beacons\<close>

lemma announced_packet:
  assumes "length g \<le> 3"
  shows "announced e' (beacon_packet e g @ rest) = length g"
proof -
  have "take 8 (drop 1 (beacon_packet e g @ rest)) = store_word Big (word_of_nat (length g) :: Uint64)"
    by (simp add: beacon_packet_def store_hton)
  then show ?thesis
    using assms unfolding announced_def by (simp add: hton_load load_store_word unat_of_nat)
qed

text \<open>A beacon of another host in the buffer, whatever follows it there.\<close>

lemma handle_datagram_beacon:
  assumes "db_inv db" "length g \<le> 3" "\<forall>h \<in> set g. length h = RESOURCE_HEADER_SIZE"
    and "buf = beacon_packet e g @ rest"
  shows "\<exists>db'. handle_datagram e' ip buf db = Inr db' \<and> db_inv db' \<and>
    abs_db db' = spec_update ip ((\<lambda>h. res_key (Resource_from_header e' h)) ` set g) (abs_db db)"
proof -
  let ?pre = "[FILE_LIST] @ store_word e (hton e (word_of_nat (length g) :: Uint64))"
  let ?rs = "map (\<lambda>h. Resource_copy (Resource_from_header e' h)) g"
  have "buf = ?pre @ concat g @ rest" using assms(4) by (simp add: beacon_packet_def)
  then have hd: "read_headers e' buf 9 (length g) = Inr ?rs"
    using read_headers_concat [of g 9 ?pre e' rest] assms(3) by simp
  have "announced e' buf = length g" unfolding assms(4) by (rule announced_packet [OF assms(2)])
  moreover have "buf ! 0 = FILE_LIST" using assms(4) by (simp add: beacon_packet_def)
  ultimately have "handle_datagram e' ip buf db = update_host ip ?rs db"
    using hd by (simp add: handle_datagram_def Let_def announced_def)
  moreover obtain db' where "update_host ip ?rs db = Inr db'" "db_inv db'"
      "abs_db db' = spec_update ip (res_key ` set ?rs) (abs_db db)"
    using update_host_correct [OF assms(1)] by blast
  moreover have "res_key ` set ?rs = (\<lambda>h. res_key (Resource_from_header e' h)) ` set g"
    by (simp add: image_image)
  ultimately show ?thesis by simp
qed

lemma handle_receive_beacon:
  assumes "db_inv db" "length (recv_buffer srv) = UDP_SERV_BUFFER_SIZE" "ip \<noteq> local_ip db"
    and "length g \<le> 3" "\<forall>h \<in> set g. length h = RESOURCE_HEADER_SIZE"
  shows "\<exists>rest db'. handle_receive e' (Received ip (beacon_packet e g)) (srv, db) =
      Inr (srv\<lparr>recv_buffer := beacon_packet e g @ rest, receiving := True\<rparr>, db') \<and> db_inv db' \<and>
    length (beacon_packet e g @ rest) = UDP_SERV_BUFFER_SIZE \<and>
    abs_db db' = spec_update ip ((\<lambda>h. res_key (Resource_from_header e' h)) ` set g) (abs_db db)"
proof -
  let ?p = "beacon_packet e g" and ?b = "recv_buffer srv"
  have "length ?p \<le> length ?b" using length_beacon_packet [OF assms(5), of e] assms(2,4) by simp
  then have buf: "fill_buffer ?p ?b = ?p @ drop (length ?p) ?b" by (simp add: fill_buffer_def)
  moreover have "length (?p @ drop (length ?p) ?b) = UDP_SERV_BUFFER_SIZE"
    using arg_cong [OF buf, of length] assms(2) by simp
  moreover obtain db' where "handle_datagram e' ip (?p @ drop (length ?p) ?b) db = Inr db'" "db_inv db'"
      "abs_db db' = spec_update ip ((\<lambda>h. res_key (Resource_from_header e' h)) ` set g) (abs_db db)"
    using handle_datagram_beacon [OF assms(1,4,5) refl] by blast
  ultimately show ?thesis
    using assms(3) unfolding handle_receive_eq [OF assms(1)] Let_def buf
    by (intro exI [of _ "drop (length ?p) ?b"] exI [of _ db']) simp
qed

text \<open>C27: The number of octets received is ignored: a datagram of nine octets, the head of a
  beacon alone, from a third host after a beacon of another one, makes the receiver record
  that the third host has the files the other one advertised.\<close>

theorem stale_headers_credited:
  assumes "db_inv db" "length (recv_buffer srv) = UDP_SERV_BUFFER_SIZE"
    and "ip \<noteq> local_ip db" "ip' \<noteq> local_ip db"
    and "length g \<le> 3" "\<forall>h \<in> set g. length h = RESOURCE_HEADER_SIZE"
  shows "\<exists>srv' db'. foldE (handle_receive e')
      [Received ip (beacon_packet e g), Received ip' (take 9 (beacon_packet e g))] (srv, db) = Inr (srv', db') \<and>
    (\<forall>h \<in> set g. (ip', res_key (Resource_from_header e' h)) \<in> owners db')"
proof -
  obtain rest db1 where 1: "handle_receive e' (Received ip (beacon_packet e g)) (srv, db) =
      Inr (srv\<lparr>recv_buffer := beacon_packet e g @ rest, receiving := True\<rparr>, db1)" "db_inv db1"
      "length (beacon_packet e g @ rest) = UDP_SERV_BUFFER_SIZE"
      "abs_db db1 = spec_update ip ((\<lambda>h. res_key (Resource_from_header e' h)) ` set g) (abs_db db)"
    using handle_receive_beacon [OF assms(1-3,5,6)] by blast
  have loc: "local_ip db1 = local_ip db" using arg_cong [OF 1(4), of reg_local]
    by (simp add: abs_db_def spec_update_def)
  have "take 9 (beacon_packet e g) @ drop 9 (beacon_packet e g @ rest) = beacon_packet e g @ rest"
    by (simp add: beacon_packet_def)
  then have buf: "fill_buffer (take 9 (beacon_packet e g)) (beacon_packet e g @ rest) = beacon_packet e g @ rest"
    by (simp add: fill_buffer_def beacon_packet_def)
  obtain db2 where 2: "handle_datagram e' ip' (beacon_packet e g @ rest) db1 = Inr db2"
      "abs_db db2 = spec_update ip' ((\<lambda>h. res_key (Resource_from_header e' h)) ` set g) (abs_db db1)"
    using handle_datagram_beacon [OF 1(2) assms(5,6) refl] by blast
  have "\<forall>h \<in> set g. (ip', res_key (Resource_from_header e' h)) \<in> owners db2"
    using arg_cong [OF 2(2), of reg_owners] by (simp add: abs_db_def spec_update_def)
  moreover have "handle_receive e' (Received ip' (take 9 (beacon_packet e g)))
      (srv\<lparr>recv_buffer := beacon_packet e g @ rest, receiving := True\<rparr>, db1) =
      Inr (srv\<lparr>recv_buffer := beacon_packet e g @ rest, receiving := True\<rparr>, db2)"
    using 2(1) assms(4) loc unfolding handle_receive_eq [OF 1(2)] Let_def by (simp add: buf)
  ultimately show ?thesis using 1(1) by simp
qed

theorem stale_headers_credited_witness:
  "\<exists>(db :: nat database) h srv' db'. db_inv db \<and>
    generate_resource_header Little (Resource_new ''f'' 5 ''f'') = Inr h \<and>
    foldE (handle_receive Big)
      [Received 8 (beacon_packet Little [h]), Received 9 (take 9 (beacon_packet Little [h]))]
      (Udp_Server_new, db) = Inr (srv', db') \<and> (9, ''f'', 5) \<in> owners db'"
proof -
  obtain db :: "nat database" where db: "db_inv db" "local_ip db = 7" by (rule advertising_database)
  let ?r = "Resource_new ''f'' 5 ''f''"
  have ok: "header_ok ?r" by (simp add: header_ok_def nul_free_def Resource_new_def)
  obtain h where h: "generate_resource_header Little ?r = Inr h" "length h = RESOURCE_HEADER_SIZE"
    using header.enc_width [OF ok, of Little] by blast
  have "res_key (Resource_from_header Big h) = (''f'', 5)"
    using header.dec_enc [OF ok h(1), of Big] by (simp add: res_key_def Resource_new_def)
  with stale_headers_credited [OF db(1), of Udp_Server_new 8 9 "[h]" Big Little] db h show ?thesis
    by (simp add: Udp_Server_new_def) blast
qed

section \<open>Revocations\<close>

lemma handle_receive_revocation:
  assumes "db_inv db" "length (recv_buffer srv) = UDP_SERV_BUFFER_SIZE" "ip \<noteq> local_ip db"
    and "length h = RESOURCE_HEADER_SIZE"
  shows "\<exists>srv' db'. handle_receive e' (Received ip (REVOKE # h)) (srv, db) = Inr (srv', db') \<and>
    receiving srv' \<and> db_inv db' \<and>
    abs_db db' = spec_revoke (res_key (Resource_from_header e' h)) (abs_db db)"
proof -
  let ?buf = "fill_buffer (REVOKE # h) (recv_buffer srv)"
  have buf: "?buf = REVOKE # h @ drop 265 (recv_buffer srv)"
    using assms(2,4) by (simp add: fill_buffer_def)
  have "mem_range ?buf 1 264 = Inr h"
    unfolding buf using assms(2,4) by (simp add: mem_range_def)
  moreover have "?buf ! 0 = REVOKE" "?buf ! 0 \<noteq> FILE_LIST" unfolding buf by simp_all
  moreover obtain db' where "revoke_resource (Resource_from_header e' h) db = Inr db'" "db_inv db'"
      "abs_db db' = spec_revoke (res_key (Resource_from_header e' h)) (abs_db db)"
    using revoke_resource_correct [OF assms(1)] by blast
  ultimately have "handle_datagram e' ip ?buf db = Inr db'" "db_inv db'"
      "abs_db db' = spec_revoke (res_key (Resource_from_header e' h)) (abs_db db)"
    by (simp_all add: handle_datagram_def)
  with assms(3) show ?thesis by (simp add: handle_receive_eq [OF assms(1)] Let_def)
qed

text \<open>C15: Revoking a file at one host ends its sharing everywhere a datagram reaches: the
  module queues exactly one datagram for the network and revokes the file in the local
  database, and a peer that receives this datagram, of whatever byte order, revokes the same
  file: afterwards no host owns it in either database, and other files are not affected.\<close>

theorem revocation_spreads:
  assumes "db_inv db" "db_inv peer_db" "client_ok c" "header_ok r"
    and "length (recv_buffer srv) = UDP_SERV_BUFFER_SIZE" "ip \<noteq> local_ip peer_db"
  shows "\<exists>c' db' packet srv' peer_db'. module_revoke_file e r (Some c, db) = Inr (Some c', db') \<and>
    accepted c' = accepted c @ [packet] \<and>
    abs_db db' = spec_revoke (res_key r) (abs_db db) \<and>
    handle_receive e' (Received ip packet) (srv, peer_db) = Inr (srv', peer_db') \<and>
    abs_db peer_db' = spec_revoke (res_key r) (abs_db peer_db)"
proof -
  have ok: "header_ok (Resource_copy r)" using assms(4) by (simp add: header_ok_def)
  obtain h where h: "generate_resource_header e (Resource_copy r) = Inr h" "length h = RESOURCE_HEADER_SIZE"
    using header.enc_width [OF ok, of e] by blast
  have key: "res_key (Resource_from_header e' h) = res_key r"
    using header.dec_enc [OF ok h(1), of e'] by simp
  obtain c' where c': "send (REVOKE # h) c = Inr c'" "accepted c' = accepted c @ [REVOKE # h]"
    using send_ok [OF assms(3), of "REVOKE # h"] by auto
  obtain db' where db': "revoke_resource r db = Inr db'" "abs_db db' = spec_revoke (res_key r) (abs_db db)"
    using revoke_resource_correct [OF assms(1)] by blast
  have "module_revoke_file e r (Some c, db) = Inr (Some c', db')"
    using h(1) c'(1) db'(1) by (simp add: module_revoke_file_def revoke_file_def)
  then show ?thesis
    using c'(2) db'(2) handle_receive_revocation [OF assms(2,5,6) h(2), of e'] key by fastforce
qed

theorem revocation_spreads_witness:
  "\<exists>(db :: nat database) c' db' packet srv' peer_db'. owners db = {(7, ''XD'', 0)} \<and>
    module_revoke_file Little (Resource_new ''XD'' 0 ''./'') (Some (Udp_Client_new 0 5), db) =
      Inr (Some c', db') \<and> accepted c' = [packet] \<and> owners db' = {} \<and>
    handle_receive Big (Received 8 packet) (Udp_Server_new, db) = Inr (srv', peer_db') \<and>
    owners peer_db' = {}"
proof -
  obtain db :: "nat database" where db: "db_inv db" "owners db = {(7, ''XD'', 0)}" "local_ip db = 7"
    by (rule advertising_database)
  let ?r = "Resource_new ''XD'' 0 ''./''" and ?c = "Udp_Client_new 0 5"
  have own: "owners x = {}" if "abs_db x = spec_revoke (res_key ?r) (abs_db db)" for x :: "nat database"
    using arg_cong [OF that, of reg_owners] db(2)
    by (auto simp: abs_db_def spec_revoke_def res_key_def Resource_new_def)
  have c: "client_ok ?c" "header_ok ?r" "accepted ?c = []"
      "length (recv_buffer Udp_Server_new) = UDP_SERV_BUFFER_SIZE" "8 \<noteq> local_ip db"
    using db(3)
    by (simp_all add: client_ok_def header_ok_def nul_free_def Resource_new_def Udp_Client_new_def
        accepted_def Udp_Server_new_def)
  obtain c' db' packet srv' peer_db' where
    "module_revoke_file Little ?r (Some ?c, db) = Inr (Some c', db')" "accepted c' = accepted ?c @ [packet]"
    "abs_db db' = spec_revoke (res_key ?r) (abs_db db)"
    "handle_receive Big (Received 8 packet) (Udp_Server_new, db) = Inr (srv', peer_db')"
    "abs_db peer_db' = spec_revoke (res_key ?r) (abs_db db)"
    using revocation_spreads [OF db(1) db(1) c(1,2,4,5), of Little Big] by blast
  with db(2) c(3) own show ?thesis by (metis append_Nil)
qed

end
