(* ===== verification/Line_Queue.thy ===== *)
theory Line_Queue
  imports P2P_Prelude
begin

text \<open>
  \<^verbatim>\<open>LoggingModule.h/.cpp\<close> and \<^verbatim>\<open>Printer.h/.cpp\<close>: two queues of lines, each emptied to an output
  stream by its own thread, which waits on a condition variable without a predicate. Their
  common contract is the locale \<open>line_sink\<close>, which both implement. \<open>std::ctime\<close>, whose result
  depends on the time zone, is a parameter of the logger.
\<close>

section \<open>The contract\<close>

datatype 'm sink_event = Post 'm | Turn

fun sink_step :: "('m \<Rightarrow> 's \<Rightarrow> 's) \<Rightarrow> ('s \<Rightarrow> 's option) \<Rightarrow> 'm sink_event \<Rightarrow> 's \<Rightarrow> 's" where
  "sink_step post turn (Post m) s = post m s"
| "sink_step post turn Turn s = (case turn s of Some s' \<Rightarrow> s' | None \<Rightarrow> s)"

fun posted :: "'m sink_event list \<Rightarrow> 'm list" where
  "posted [] = []"
| "posted (Post m # es) = m # posted es"
| "posted (Turn # es) = posted es"

locale line_sink =
  fixes post :: "'m \<Rightarrow> 's \<Rightarrow> 's"
    and turn :: "'s \<Rightarrow> 's option"
    and pending :: "'s \<Rightarrow> string list"
    and written :: "'s \<Rightarrow> string"
    and started :: "'s \<Rightarrow> bool"
    and entry :: "'m \<Rightarrow> string"
    and shown :: "string \<Rightarrow> string"
  assumes post_law: "pending (post m s) = pending s @ [entry m] \<and> written (post m s) = written s \<and>
      started (post m s) = started s"
    and turn_law: "turn s = Some s' \<Longrightarrow> pending s' = [] \<and>
      written s' = written s @ concat (map shown (pending s)) \<and> started s'"
    and post_wakes: "started s \<Longrightarrow> turn (post m s) \<noteq> None"
begin

lemma run_conserves:
  "written (fold (sink_step post turn) es s) @ concat (map shown (pending (fold (sink_step post turn) es s))) =
   written s @ concat (map shown (pending s)) @ concat (map (\<lambda>m. shown (entry m)) (posted es))"
proof (induction es arbitrary: s)
  case (Cons e es)
  show ?case
  proof (cases e)
    case (Post m)
    then show ?thesis using Cons.IH [of "post m s"] post_law [of m s] by simp
  next
    case Turn
    show ?thesis
    proof (cases "turn s")
      case None
      then show ?thesis using Turn Cons.IH [of s] by simp
    next
      case (Some s')
      then show ?thesis using Turn Cons.IH [of s'] turn_law [OF Some] by simp
    qed
  qed
qed simp

lemma post_then_turn:
  assumes "started s"
  shows "\<exists>s'. turn (post m s) = Some s' \<and> pending s' = [] \<and> started s' \<and>
    written s' = written s @ concat (map shown (pending s)) @ shown (entry m)"
proof -
  obtain s' where s': "turn (post m s) = Some s'" using post_wakes [OF assms, of m] by auto
  with turn_law [OF s'] post_law [of m s] show ?thesis by simp
qed

end

section \<open>The logger\<close>

text \<open>Where the worker thread is: not yet waiting, waiting, or notified.\<close>

datatype worker_state = Unstarted | Waits | Notified

record Logging_Module =
  logging_queue :: "string list"
  log_output :: string
  log_worker :: worker_state

definition Logging_Module_new :: Logging_Module where
  "Logging_Module_new = \<lparr>logging_queue = [], log_output = [], log_worker = Unstarted\<rparr>"

definition notify :: "worker_state \<Rightarrow> worker_state" where
  "notify w = (if w = Waits then Notified else w)"

text \<open>The thread of \<open>init\<close> reaches its first \<open>wait\<close>.\<close>

definition log_init :: "Logging_Module \<Rightarrow> Logging_Module" where
  "log_init l = l\<lparr>log_worker := Waits\<rparr>"

definition log_entry :: "(time_t \<Rightarrow> string) \<Rightarrow> string \<times> time_t \<Rightarrow> string" where
  "log_entry ctime = (\<lambda>(line, time).
     (let time_str = ctime time
      in ''['' @ take (length time_str - 1) time_str @ ''] '' @ line))"

definition add_log_line :: "(time_t \<Rightarrow> string) \<Rightarrow> string \<times> time_t \<Rightarrow> Logging_Module \<Rightarrow> Logging_Module" where
  "add_log_line ctime m l =
     l\<lparr>logging_queue := logging_queue l @ [log_entry ctime m], log_worker := notify (log_worker l)\<rparr>"

text \<open>One turn of the worker: notified, it empties the queue and waits again.\<close>

fun drain :: "(string \<Rightarrow> string) \<Rightarrow> string list \<Rightarrow> string \<Rightarrow> string" where
  "drain shown [] out = out"
| "drain shown (x # xs) out = drain shown xs (out @ shown x)"

lemma drain_eq: "drain shown q out = out @ concat (map shown q)"
  by (induction q arbitrary: out) simp_all

definition log_shown :: "string \<Rightarrow> string" where
  "log_shown line = line @ [CHR 0x0A]"

definition log_turn :: "Logging_Module \<Rightarrow> Logging_Module option" where
  "log_turn l =
     (if log_worker l = Notified
      then Some (l\<lparr>log_output := drain log_shown (logging_queue l) (log_output l),
                   logging_queue := [], log_worker := Waits\<rparr>)
      else None)"

interpretation logger: line_sink "add_log_line ctime" log_turn logging_queue log_output
  "\<lambda>l. log_worker l \<noteq> Unstarted" "log_entry ctime" log_shown for ctime
  by unfold_locales
    (auto simp: add_log_line_def log_turn_def notify_def drain_eq worker_state.exhaust split: if_splits
      intro: worker_state.exhaust)

section \<open>The printer\<close>

record Printer =
  printing_queue :: "string list"
  print_output :: string
  print_worker :: worker_state

definition Printer_new :: Printer where
  "Printer_new = \<lparr>printing_queue = [], print_output = [], print_worker = Unstarted\<rparr>"

definition print_init :: "Printer \<Rightarrow> Printer" where
  "print_init p = p\<lparr>print_worker := Waits\<rparr>"

definition print :: "string \<Rightarrow> Printer \<Rightarrow> Printer" where
  "print line p = p\<lparr>printing_queue := printing_queue p @ [line], print_worker := notify (print_worker p)\<rparr>"

definition print_turn :: "Printer \<Rightarrow> Printer option" where
  "print_turn p =
     (if print_worker p = Notified
      then Some (p\<lparr>print_output := drain id (printing_queue p) (print_output p),
                   printing_queue := [], print_worker := Waits\<rparr>)
      else None)"

interpretation printer: line_sink print print_turn printing_queue print_output
  "\<lambda>p. print_worker p \<noteq> Unstarted" id id
  by unfold_locales
    (auto simp: print_def print_turn_def notify_def drain_eq split: if_splits
      intro: worker_state.exhaust)

section \<open>Properties\<close>

text \<open>C37: The logger loses, repeats and reorders nothing: whatever the interleaving of calls
  with the turns of the worker, what was written followed by what is queued is one line
  for every call, in the order of the calls, each with its time and a line break.\<close>

theorem log_in_order:
  "log_output (fold (sink_step (add_log_line ctime) log_turn) es (log_init Logging_Module_new)) @
   concat (map log_shown
     (logging_queue (fold (sink_step (add_log_line ctime) log_turn) es (log_init Logging_Module_new)))) =
   concat (map (\<lambda>m. log_shown (log_entry ctime m)) (posted es))"
  using logger.run_conserves [of ctime es "log_init Logging_Module_new"]
  by (simp add: log_init_def Logging_Module_new_def)

text \<open>Once the printer's thread waits, the turn after any call of \<open>print\<close> writes
  everything printed so far, in order. But a text printed before the thread waits is not
  noticed: the thread then waits with the text in its queue until the next call.\<close>

lemma print_wakes_worker:
  "(print_worker p \<noteq> Unstarted \<longrightarrow>
      (\<exists>p'. print_turn (print line p) = Some p' \<and> printing_queue p' = [] \<and>
         print_output p' = print_output p @ concat (printing_queue p) @ line)) \<and>
   print_turn (print_init (print line Printer_new)) = None \<and>
   printing_queue (print_init (print line Printer_new)) = [line]"
proof (intro conjI impI)
  assume "print_worker p \<noteq> Unstarted"
  from printer.post_then_turn [OF this, of line]
  show "\<exists>p'. print_turn (print line p) = Some p' \<and> printing_queue p' = [] \<and>
      print_output p' = print_output p @ concat (printing_queue p) @ line"
    by auto
qed (simp_all add: print_turn_def print_init_def print_def Printer_new_def)

end
