(* ===== verification/CLI_Model.thy ===== *)
theory CLI_Model
  imports Udp_Server Line_Queue
begin

text \<open>
  \<^verbatim>\<open>CLI.h/.cpp\<close> and \<^verbatim>\<open>CLICommand.h/.cpp\<close>: the command line. A command is a name, a description
  and a function from its argument and the state of the program the CLI reaches: the
  database, the printer, the UDP client, and the downloads it has started. The tokenizer of
  Boost and the file system's \<open>file_size\<close> are parameters.
\<close>

section \<open>State\<close>

record 'ip CLI =
  cli_db :: "'ip database"
  cli_printer :: Printer
  cli_client :: "Udp_Client option"
  cli_downloads :: "rptr list"
  cli_exited :: bool

datatype file_size = Size Uint64 | No_such_file_or_directory | Other_error

record 'ip CLICommand =
  cmd_name :: string
  cmd_desc :: string
  cmd_function :: "(string \<Rightarrow> 'ip CLI \<Rightarrow> 'ip CLI result) option"

definition endl :: string where
  "endl = [CHR 0x0A]"

text \<open>The decimal digits of \<open>operator<<\<close> for numbers.\<close>

fun decimal :: "nat \<Rightarrow> string" where
  "decimal n = (if n < 10 then [char_of (48 + n)] else decimal (n div 10) @ [char_of (48 + n mod 10)])"

declare decimal.simps [simp del]

text \<open>\<open>print_text\<close>; the string stream is empty again afterwards.\<close>

definition print_text :: "string \<Rightarrow> 'ip CLI \<Rightarrow> 'ip CLI" where
  "print_text text s = s\<lparr>cli_printer := print text (cli_printer s)\<rparr>"

section \<open>The commands\<close>

definition cmd_add :: "(string \<Rightarrow> file_size) \<Rightarrow> string \<Rightarrow> 'ip CLI \<Rightarrow> 'ip CLI result" where
  "cmd_add fsize name_of_file s =
     (case fsize name_of_file of
        Size n \<Rightarrow>
          (let s = print_text ('' File size is: '' @ decimal (unat n) @ endl) s
           in bindE (add_file_local (Resource_new name_of_file n name_of_file) (cli_db s))
                (\<lambda>db. Inr (s\<lparr>cli_db := db\<rparr>)))
      | No_such_file_or_directory \<Rightarrow>
          Inr (print_text ('' File does not exist. Are you sure it is in Simple_P2P/bin?'' @ endl) s)
      | Other_error \<Rightarrow> Inr s)"

text \<open>The loops over \<open>getResources()\<close> that stop at the first resource of a name.\<close>

definition first_named :: "'ip database \<Rightarrow> string \<Rightarrow> rptr option result" where
  "first_named db name =
     find_ifE (\<lambda>it. bindE (deref_res db it) (\<lambda>r. Inr (res_name r = name))) (getResources db)"

definition cmd_revoke :: "endian \<Rightarrow> string \<Rightarrow> 'ip CLI \<Rightarrow> 'ip CLI result" where
  "cmd_revoke e name_of_file s =
     bindE (first_named (cli_db s) name_of_file) (\<lambda>found.
       case found of
         Some p \<Rightarrow>
           bindE (deref_res (cli_db s) p) (\<lambda>resource.
           bindE (module_revoke_file e resource (cli_client s, cli_db s)) (\<lambda>(client, db).
             Inr (print_text ('' Done.'' @ endl) (s\<lparr>cli_client := client, cli_db := db\<rparr>))))
       | None \<Rightarrow>
           Inr (print_text ('' File does not exist. Are you sure it is in database?'' @ endl) s))"

definition cmd_download :: "string \<Rightarrow> 'ip CLI \<Rightarrow> 'ip CLI result" where
  "cmd_download name_of_file s =
     bindE (first_named (cli_db s) name_of_file) (\<lambda>found.
       case found of
         Some p \<Rightarrow>
           bindE (deref_res (cli_db s) p) (\<lambda>resource.
             if isInvalidated resource
             then Inr (print_text ('' File found, invaldiated. Cannot be downloaded.'' @ endl) s)
             else Inr ((print_text ('' File found, starting download.'' @ endl) s)
                         \<lparr>cli_downloads := cli_downloads s @ [p]\<rparr>))
       | None \<Rightarrow> Inr (print_text ('' File not found.'' @ endl) s))"

definition global_line :: "'ip database \<Rightarrow> rptr \<Rightarrow> string result" where
  "global_line db p =
     bindE (deref_res db p) (\<lambda>resource.
     bindE (deref_host db (get_localhost db)) (\<lambda>localhost.
     bindE (Host_has_resource (res_mem db) localhost resource) (\<lambda>owned.
       Inr ('' '' @ res_name resource @ (if owned then '' [owned]'' else [])
              @ (if isInvalidated resource then '' [revoked]'' else []) @ endl))))"

definition cmd_global :: "string \<Rightarrow> 'ip CLI \<Rightarrow> 'ip CLI result" where
  "cmd_global placeholder s =
     bindE (mapE (global_line (cli_db s)) (getResources (cli_db s))) (\<lambda>text.
       Inr (print_text (concat text) s))"

text \<open>The names and descriptions, which \<open>help\<close> prints in columns.\<close>

definition command_texts :: "(string \<times> string) list" where
  \<open>command_texts =
     [(''add'', ''"add name_of_file" - adds local file to resource db, will be broadcasted''),
      (''revoke'', ''"revoke name_of_file" - invalidates a resource''),
      (''download'', ''"download name_of_file" - downloads a file using p2p''),
      (''global'', ''prints files in the system''),
      (''help'', ''prints available commands''),
      (''quit'', ''leaves the program'')]\<close>

definition show_command :: "string \<times> string \<Rightarrow> string" where
  "show_command = (\<lambda>(name, desc).
     ''- '' @ name @ replicate (10 - length name) (CHR '' '') @ '' '' @ desc @ endl)"

definition cmd_help :: "string \<Rightarrow> 'ip CLI \<Rightarrow> 'ip CLI result" where
  "cmd_help placeholder s = Inr (print_text (concat (map show_command command_texts)) s)"

definition cmd_quit :: "string \<Rightarrow> 'ip CLI \<Rightarrow> 'ip CLI result" where
  "cmd_quit x s = Inr (s\<lparr>cli_exited := True\<rparr>)"

definition CLICommands :: "endian \<Rightarrow> (string \<Rightarrow> file_size) \<Rightarrow> 'ip CLICommand list" where
  "CLICommands e fsize =
     map2 (\<lambda>(name, desc) f. \<lparr>cmd_name = name, cmd_desc = desc, cmd_function = Some f\<rparr>) command_texts
       [cmd_add fsize, cmd_revoke e, cmd_download, cmd_global, cmd_help, cmd_quit]"

section \<open>Dispatch\<close>

text \<open>\<open>operator()\<close>; a command without a function writes to the standard output directly.\<close>

definition call_command :: "'ip CLICommand \<Rightarrow> string \<Rightarrow> 'ip CLI \<Rightarrow> 'ip CLI result" where
  "call_command c arg s = (case cmd_function c of Some f \<Rightarrow> f arg s | None \<Rightarrow> Inr s)"

text \<open>After \<open>exit\<close> nothing else happens.\<close>

definition dispatch ::
    "string \<Rightarrow> string \<Rightarrow> 'ip CLICommand \<Rightarrow> bool \<times> 'ip CLI \<Rightarrow> (bool \<times> 'ip CLI) result" where
  "dispatch name arg c = (\<lambda>(found, s).
     if name = cmd_name c \<and> \<not> cli_exited s
     then bindE (call_command c arg s) (\<lambda>s. Inr (True, s)) else Inr (found, s))"

definition hint :: string where
  "hint = ''* type '' @ [CHR 0x27] @ ''help'' @ [CHR 0x27] @ '' for the list of available commands'' @ endl"

definition execute_command ::
    "'ip CLICommand list \<Rightarrow> string \<Rightarrow> string \<Rightarrow> 'ip CLI \<Rightarrow> 'ip CLI result" where
  "execute_command cmds name arg s =
     bindE (foldE (dispatch name arg) cmds (False, s)) (\<lambda>(found, s).
       if \<not> found \<and> \<not> cli_exited s then Inr (print_text hint s) else Inr s)"

text \<open>One line of the loop in \<open>start_CLI\<close>, and the loop over the lines of the input.\<close>

definition cli_line ::
    "'ip CLICommand list \<Rightarrow> (string \<Rightarrow> string list) \<Rightarrow> string \<Rightarrow> 'ip CLI \<Rightarrow> 'ip CLI result" where
  "cli_line cmds tokens line s =
     (if cli_exited s then Inr s
      else case tokens line of
             [] \<Rightarrow> Inr s
           | [name] \<Rightarrow> execute_command cmds name [] s
           | name # arg # _ \<Rightarrow> execute_command cmds name arg s)"

definition init_info :: string where
  "init_info = ''-----'' @ endl @ ''Simple P2P downloader - TIN 19Z project'' @ endl @
     ''Wiktor Michalski'' @ endl @ ''Przemyslaw Stawczyk'' @ endl @ ''Maciej Szulik'' @ endl @
     ''Kamil Zacharczuk'' @ endl @ ''-----'' @ endl"

definition start_CLI ::
    "endian \<Rightarrow> (string \<Rightarrow> file_size) \<Rightarrow> (string \<Rightarrow> string list) \<Rightarrow> string list \<Rightarrow> 'ip CLI \<Rightarrow> 'ip CLI result" where
  "start_CLI e fsize tokens lines s =
     bindE (execute_command (CLICommands e fsize) ''help'' [] (print_text init_info s))
       (foldE (cli_line (CLICommands e fsize) tokens) lines)"

section \<open>Lemmas\<close>

lemma CLICommands_eq: "CLICommands e fsize =
  [\<lparr>cmd_name = ''add'', cmd_desc = snd (command_texts ! 0), cmd_function = Some (cmd_add fsize)\<rparr>,
   \<lparr>cmd_name = ''revoke'', cmd_desc = snd (command_texts ! 1), cmd_function = Some (cmd_revoke e)\<rparr>,
   \<lparr>cmd_name = ''download'', cmd_desc = snd (command_texts ! 2), cmd_function = Some cmd_download\<rparr>,
   \<lparr>cmd_name = ''global'', cmd_desc = snd (command_texts ! 3), cmd_function = Some cmd_global\<rparr>,
   \<lparr>cmd_name = ''help'', cmd_desc = snd (command_texts ! 4), cmd_function = Some cmd_help\<rparr>,
   \<lparr>cmd_name = ''quit'', cmd_desc = snd (command_texts ! 5), cmd_function = Some cmd_quit\<rparr>]"
  by (simp add: CLICommands_def command_texts_def)

text \<open>The dispatch runs the one command of the name.\<close>

lemma dispatch_none:
  "name \<notin> cmd_name ` set cmds \<Longrightarrow> foldE (dispatch name arg) cmds (found, s) = Inr (found, s)"
  by (induction cmds) (auto simp: dispatch_def)

lemma execute_one:
  assumes "cmds = pre @ c # post" "cmd_name c = name" "cmd_function c = Some f"
    and "name \<notin> cmd_name ` set pre" "name \<notin> cmd_name ` set post" "\<not> cli_exited s"
  shows "execute_command cmds name arg s = f arg s"
proof -
  have "foldE (dispatch name arg) cmds (False, s) = bindE (f arg s) (\<lambda>s. Inr (True, s))"
    using assms(2,3,6) dispatch_none [OF assms(5)] unfolding assms(1) foldE_append dispatch_none [OF assms(4)]
    by (cases "f arg s") (simp_all add: dispatch_def call_command_def)
  then show ?thesis by (cases "f arg s") (simp_all add: execute_command_def)
qed

lemma execute_none:
  "name \<notin> cmd_name ` set cmds \<Longrightarrow> \<not> cli_exited s \<Longrightarrow>
   execute_command cmds name arg s = Inr (print_text hint s)"
  by (simp add: execute_command_def dispatch_none)

lemma execute_command_simps:
  fixes s :: "'ip CLI"
  assumes "\<not> cli_exited s"
  shows "execute_command (CLICommands e fsize) ''add'' arg s = cmd_add fsize arg s"
    and "execute_command (CLICommands e fsize) ''revoke'' arg s = cmd_revoke e arg s"
    and "execute_command (CLICommands e fsize) ''download'' arg s = cmd_download arg s"
    and "execute_command (CLICommands e fsize) ''global'' arg s = cmd_global arg s"
    and "execute_command (CLICommands e fsize) ''help'' arg s = cmd_help arg s"
    and "execute_command (CLICommands e fsize) ''quit'' arg s = cmd_quit arg s"
proof -
  let ?c = "CLICommands e fsize :: 'ip CLICommand list"
  have split: "k < length ?c \<Longrightarrow> ?c = take k ?c @ ?c ! k # drop (Suc k) ?c" for k
    by (rule id_take_nth_drop)
  show "execute_command ?c ''add'' arg s = cmd_add fsize arg s"
    by (rule execute_one [OF split [of 0] _ _ _ _ assms]) (simp_all add: CLICommands_eq)
  show "execute_command ?c ''revoke'' arg s = cmd_revoke e arg s"
    by (rule execute_one [OF split [of 1] _ _ _ _ assms]) (simp_all add: CLICommands_eq)
  show "execute_command ?c ''download'' arg s = cmd_download arg s"
    by (rule execute_one [OF split [of 2] _ _ _ _ assms]) (simp_all add: CLICommands_eq)
  show "execute_command ?c ''global'' arg s = cmd_global arg s"
    by (rule execute_one [OF split [of 3] _ _ _ _ assms]) (simp_all add: CLICommands_eq)
  show "execute_command ?c ''help'' arg s = cmd_help arg s"
    by (rule execute_one [OF split [of 4] _ _ _ _ assms]) (simp_all add: CLICommands_eq)
  show "execute_command ?c ''quit'' arg s = cmd_quit arg s"
    by (rule execute_one [OF split [of 5] _ _ _ _ assms]) (simp_all add: CLICommands_eq)
qed

lemma command_names:
  "cmd_name ` set (CLICommands e fsize) = fst ` set command_texts"
  by (simp add: CLICommands_def command_texts_def)

lemma command_name_cases:
  assumes "name \<in> fst ` set command_texts"
  obtains "name = ''add''" | "name = ''revoke''" | "name = ''download''" | "name = ''global''" |
    "name = ''help''" | "name = ''quit''"
proof -
  have "fst ` set command_texts = {''add'', ''revoke'', ''download'', ''global'', ''help'', ''quit''}"
    by (simp add: command_texts_def)
  with assms show thesis using that by blast
qed

section \<open>Effects of the commands\<close>

lemma first_named_ok:
  assumes "db_inv db"
  shows "first_named db name = Inr (find (\<lambda>p. res_name (resOf db p) = name) (resources db))"
  unfolding first_named_def getResources_def
  by (rule find_ifE_Inr) (simp add: deref_res_ok db_inv_res [OF assms])

lemma add_file_local_correct:
  assumes "db_inv db"
  shows "\<exists>db'. add_file_local res db = Inr db' \<and> db_inv db' \<and> db_extends db db' \<and>
    abs_db db' = spec_add (res_key res) (local_ip db) (abs_db db)"
  using add_file_internal_correct [OF assms, of res "local_ip db"] deref_my_host [OF assms]
  by (auto simp: add_file_local_def add_file_def local_ip_def)

lemma revoke_resource_resources:
  assumes "revoke_resource res db = Inr db'"
  shows "resources db' = resources db"
proof -
  have step: "foldE (revoke_step r) hs d = Inr d' \<Longrightarrow> resources d' = resources d" for r hs d d'
    by (induction hs arbitrary: d) (auto simp: revoke_step_def bindE_Inr_iff upd_host_def)
  from assms show ?thesis
    by (fastforce simp: revoke_resource_def bindE_Inr_iff Let_def upd_res_def split: option.splits
        dest!: step)
qed

text \<open>
  What the commands rely on: names in the database fit the header's buffer, and the
  resources of started downloads are known.
\<close>

definition cli_ok :: "'ip CLI \<Rightarrow> bool" where
  "cli_ok s \<longleftrightarrow> db_inv (cli_db s) \<and> (\<forall>c. cli_client s = Some c \<longrightarrow> client_safe c) \<and>
     (\<forall>k \<in> files (cli_db s). length (fst k) \<le> RESOURCE_HEADER_SIZE) \<and>
     set (cli_downloads s) \<subseteq> set (resources (cli_db s))"

lemma print_text_simps [simp]:
  "cli_db (print_text t s) = cli_db s" "cli_client (print_text t s) = cli_client s"
  "cli_exited (print_text t s) = cli_exited s" "cli_downloads (print_text t s) = cli_downloads s"
  by (simp_all add: print_text_def)

lemma cli_ok_simps [simp]:
  "cli_ok (print_text t s) = cli_ok s" "cli_ok (s\<lparr>cli_exited := b\<rparr>) = cli_ok s"
  by (simp_all add: cli_ok_def)

lemma cmd_add_ok:
  assumes "cli_ok s" "length arg \<le> RESOURCE_HEADER_SIZE"
  shows "\<exists>s'. cmd_add fsize arg s = Inr s' \<and> cli_ok s' \<and>
    (case fsize arg of Size n \<Rightarrow>
       abs_db (cli_db s') = spec_add (arg, n) (local_ip (cli_db s)) (abs_db (cli_db s))
     | _ \<Rightarrow> cli_db s' = cli_db s)"
proof (cases "fsize arg")
  case (Size n)
  have inv: "db_inv (cli_db s)" using assms(1) by (simp add: cli_ok_def)
  let ?r = "Resource_new arg n arg"
  obtain db where db: "add_file_local ?r (cli_db s) = Inr db" "db_inv db" "db_extends (cli_db s) db"
      "abs_db db = spec_add (res_key ?r) (local_ip (cli_db s)) (abs_db (cli_db s))"
    using add_file_local_correct [OF inv] by blast
  have "files db = insert (arg, n) (files (cli_db s))"
    using arg_cong [OF db(4), of reg_files] by (simp add: abs_db_def spec_add_def res_key_def Resource_new_def)
  with db assms Size show ?thesis
    by (auto simp: cmd_add_def Let_def cli_ok_def res_key_def Resource_new_def db_extends_def)
qed (use assms in \<open>simp_all add: cmd_add_def\<close>)

lemma cmd_download_ok:
  assumes "cli_ok s"
  shows "\<exists>s'. cmd_download arg s = Inr s' \<and> cli_ok s' \<and> cli_db s' = cli_db s \<and> cli_exited s' = cli_exited s \<and>
    cli_downloads s' = cli_downloads s @
      (case find (\<lambda>p. res_name (resOf (cli_db s) p) = arg) (resources (cli_db s)) of
         Some p \<Rightarrow> if invalidated (resOf (cli_db s) p) then [] else [p]
       | None \<Rightarrow> [])"
proof -
  have inv: "db_inv (cli_db s)" using assms by (simp add: cli_ok_def)
  show ?thesis
  proof (cases "find (\<lambda>p. res_name (resOf (cli_db s) p) = arg) (resources (cli_db s))")
    case None
    with assms show ?thesis by (simp add: cmd_download_def first_named_ok [OF inv])
  next
    case (Some p)
    then have "deref_res (cli_db s) p = Inr (resOf (cli_db s) p)"
      using find_Some_mem [OF Some] by (intro deref_res_ok db_inv_res [OF inv]) simp
    moreover have "p \<in> set (resources (cli_db s))" using find_Some_mem [OF Some] by simp
    ultimately show ?thesis
      using Some assms by (simp add: cmd_download_def first_named_ok [OF inv] isInvalidated_def cli_ok_def)
  qed
qed

lemma revoke_file_ok:
  assumes "client_safe c" "length (res_name r) \<le> RESOURCE_HEADER_SIZE"
  shows "\<exists>c'. revoke_file e r c = Inr c' \<and> client_safe c'"
proof -
  obtain h where h: "generate_resource_header e (Resource_copy r) = Inr h"
    using length_resource_header [of "Resource_copy r" e] assms(2) by auto
  with send_safe [OF assms(1), of "REVOKE # h"] show ?thesis by (auto simp: revoke_file_def)
qed

lemma cmd_revoke_ok:
  assumes "cli_ok s"
  shows "\<exists>s'. cmd_revoke e arg s = Inr s' \<and> cli_ok s' \<and> cli_exited s' = cli_exited s \<and>
    abs_db (cli_db s') =
      (case find (\<lambda>p. res_name (resOf (cli_db s) p) = arg) (resources (cli_db s)) of
         Some p \<Rightarrow> if cli_client s = None then abs_db (cli_db s)
                   else spec_revoke (res_key (resOf (cli_db s) p)) (abs_db (cli_db s))
       | None \<Rightarrow> abs_db (cli_db s))"
proof -
  have inv: "db_inv (cli_db s)" using assms by (simp add: cli_ok_def)
  show ?thesis
  proof (cases "find (\<lambda>p. res_name (resOf (cli_db s) p) = arg) (resources (cli_db s))")
    case None
    with assms show ?thesis by (simp add: cmd_revoke_def first_named_ok [OF inv])
  next
    case (Some p)
    let ?r = "resOf (cli_db s) p"
    have p: "p \<in> set (resources (cli_db s))" using find_Some_mem [OF Some] by simp
    then have d: "deref_res (cli_db s) p = Inr ?r" by (intro deref_res_ok db_inv_res [OF inv])
    have "res_key ?r \<in> files (cli_db s)" using p by (auto simp: files_def)
    then have len: "length (res_name ?r) \<le> RESOURCE_HEADER_SIZE"
      using assms by (auto simp: cli_ok_def res_key_def)
    obtain db where db: "revoke_resource ?r (cli_db s) = Inr db" "db_inv db"
        "abs_db db = spec_revoke (res_key ?r) (abs_db (cli_db s))"
      using revoke_resource_correct [OF inv] by blast
    have fs: "files db = files (cli_db s)"
      using arg_cong [OF db(3), of reg_files] by (simp add: abs_db_def spec_revoke_def)
    show ?thesis
    proof (cases "cli_client s")
      case no_client: None
      with Some d assms show ?thesis
        by (simp add: cmd_revoke_def first_named_ok [OF inv] module_revoke_file_def cli_ok_def)
    next
      case (Some c)
      then obtain c' where "revoke_file e ?r c = Inr c'" "client_safe c'"
        using revoke_file_ok [OF _ len, of c e] assms by (auto simp: cli_ok_def)
      with Some \<open>find _ _ = Some p\<close> d db fs revoke_resource_resources [OF db(1)] assms show ?thesis
        by (simp add: cmd_revoke_def first_named_ok [OF inv] module_revoke_file_def cli_ok_def)
    qed
  qed
qed

lemma global_line_ok:
  assumes "db_inv db" "p \<in> set (resources db)"
  shows "global_line db p = Inr ('' '' @ res_name (resOf db p) @
      (if (local_ip db, res_key (resOf db p)) \<in> owners db then '' [owned]'' else []) @
      (if invalidated (resOf db p) then '' [revoked]'' else []) @ endl)"
proof -
  let ?me = "hostOf db (my_host db)" and ?k = "res_key (resOf db p)"
  note me = db_inv_my_host [OF assms(1)]
  have "of_option NullDeref (res_mem db it) = Inr (resOf db it)" if "it \<in> set (possesed_resources ?me)" for it
    using deref_res_ok [OF db_inv_res [OF assms(1) db_inv_possesed [OF assms(1) me that]]]
    by (simp add: deref_res_def)
  then have "count_ifE (\<lambda>it. bindE (of_option NullDeref (res_mem db it)) (\<lambda>r. Inr (Resource_eq (resOf db p) r)))
      (possesed_resources ?me) =
      Inr (length (filter (\<lambda>it. res_key (resOf db p) = res_key (resOf db it)) (possesed_resources ?me)))"
    by (intro count_ifE_Inr) (simp add: Resource_eq_iff)
  moreover have "(local_ip db, ?k) \<in> owners db \<longleftrightarrow>
      filter (\<lambda>it. ?k = res_key (resOf db it)) (possesed_resources ?me) \<noteq> []"
    unfolding local_ip_def owners_iff [OF assms(1) me] filter_empty_conv by metis
  ultimately have "Host_has_resource (res_mem db) ?me (resOf db p) = Inr ((local_ip db, ?k) \<in> owners db)"
    by (simp add: Host_has_resource_def)
  then show ?thesis
    using deref_res_ok [OF db_inv_res [OF assms]] deref_my_host [OF assms(1)]
    by (simp add: global_line_def get_localhost_def isInvalidated_def)
qed

lemma cmd_global_ok:
  assumes "cli_ok s"
  shows "cmd_global arg s = Inr (print_text (concat (map (\<lambda>p. '' '' @ res_name (resOf (cli_db s) p) @
      (if (local_ip (cli_db s), res_key (resOf (cli_db s) p)) \<in> owners (cli_db s) then '' [owned]'' else []) @
      (if invalidated (resOf (cli_db s) p) then '' [revoked]'' else []) @ endl) (resources (cli_db s)))) s)"
proof -
  have inv: "db_inv (cli_db s)" using assms by (simp add: cli_ok_def)
  show ?thesis
    unfolding cmd_global_def getResources_def
    by (subst mapE_Inr [OF global_line_ok [OF inv]]) simp_all
qed

section \<open>Sessions\<close>

lemma execute_command_ok:
  assumes "cli_ok s" "\<not> cli_exited s" "length arg \<le> RESOURCE_HEADER_SIZE"
  shows "\<exists>s'. execute_command (CLICommands e fsize) name arg s = Inr s' \<and> cli_ok s'"
proof -
  note ex = execute_command_simps [OF assms(2), of e fsize]
  show ?thesis
  proof (cases "name \<in> fst ` set command_texts")
    case True
    then show ?thesis
    proof (cases rule: command_name_cases)
      case 1 then show ?thesis using ex(1) cmd_add_ok [OF assms(1,3), of fsize] by auto
    next
      case 2 then show ?thesis using ex(2) cmd_revoke_ok [OF assms(1), of e arg] by auto
    next
      case 3 then show ?thesis using ex(3) cmd_download_ok [OF assms(1), of arg] by auto
    next
      case 4 then show ?thesis using ex(4) cmd_global_ok [OF assms(1)] assms(1) by simp
    next
      case 5 then show ?thesis using ex(5) assms(1) by (simp add: cmd_help_def)
    next
      case 6 then show ?thesis using ex(6) assms(1) by (simp add: cmd_quit_def)
    qed
  next
    case False
    then show ?thesis using execute_none [OF _ assms(2)] assms(1) by (simp add: command_names)
  qed
qed

lemma cli_line_ok:
  assumes "cli_ok s" "\<forall>t \<in> set (tokens line). length t \<le> RESOURCE_HEADER_SIZE"
  shows "\<exists>s'. cli_line (CLICommands e fsize) tokens line s = Inr s' \<and> cli_ok s'"
proof (cases "cli_exited s")
  case False
  with assms execute_command_ok [OF assms(1) False] show ?thesis
    by (auto simp: cli_line_def split: list.splits)
qed (use assms in \<open>simp add: cli_line_def\<close>)

text \<open>No input crashes the command line: whatever lines are typed, in a program whose
  database is in a reachable state, every command runs without a fault and keeps the database
  and the sender well-formed, as long as no argument is longer than a resource header.\<close>

lemma cli_session_safe:
  assumes "cli_ok s" "\<forall>line \<in> set lines. \<forall>t \<in> set (tokens line). length t \<le> RESOURCE_HEADER_SIZE"
  shows "\<exists>s'. start_CLI e fsize tokens lines s = Inr s' \<and> cli_ok s'"
proof -
  obtain s1 where s1: "execute_command (CLICommands e fsize) ''help'' [] (print_text init_info s) = Inr s1"
      "cli_ok s1"
  proof (cases "cli_exited s")
    case True
    then have "foldE (dispatch ''help'' []) cmds (False, print_text init_info s) =
        Inr (False, print_text init_info s)" for cmds
      by (induction cmds) (simp_all add: dispatch_def)
    with True assms(1) that [of "print_text init_info s"] show thesis by (simp add: execute_command_def)
  next
    case False
    with execute_command_ok [of "print_text init_info s" "[]" e fsize "''help''"] assms(1) that show thesis
      by auto
  qed
  have "\<exists>s'. cli_line (CLICommands e fsize) tokens line s = Inr s' \<and> cli_ok s'"
    if "line \<in> set lines" "cli_ok s" for line s
    using cli_line_ok that assms(2) by blast
  from foldE_invariant [of lines cli_ok "cli_line (CLICommands e fsize) tokens", OF this s1(2)] s1(1)
  show ?thesis by (simp add: start_CLI_def)
qed

definition new_CLI :: "'ip database \<Rightarrow> 'ip CLI" where
  "new_CLI db = \<lparr>cli_db = db, cli_printer = print_init Printer_new,
     cli_client = Some (Udp_Client_new 0 5), cli_downloads = [], cli_exited = False\<rparr>"

lemma new_CLI_ok:
  "db_inv db \<Longrightarrow> \<forall>k \<in> files db. length (fst k) \<le> 264 \<Longrightarrow> cli_ok (new_CLI db)"
  by (simp add: cli_ok_def new_CLI_def client_safe_def Udp_Client_new_def)

lemma example_CLI:
  obtains db :: "nat database" where "cli_ok (new_CLI db)" "db_inv db" "owners db = {(7, ''XD'', 0)}"
    "local_ip db = 7" "files db = {(''XD'', 0)}"
proof -
  obtain db where db: "db_inv db" "abs_db db = fold spec_call [Add_File_Local (Resource_new ''XD'' 0 ''./'')]
      (init_registry (7 :: nat))"
    by (rule reachable_database)
  then have "owners db = {(7, ''XD'', 0)}" "local_ip db = 7" "files db = {(''XD'', 0)}"
    by (simp_all add: abs_db_def spec_add_def init_registry_def res_key_def Resource_new_def)
  with db(1) new_CLI_ok [OF db(1)] show thesis by (intro that [of db]) simp_all
qed



text \<open>\<open>global\<close> prints one line for every known file, in the order of the database, and
  marks exactly those the local host owns and those that were revoked.\<close>

lemma cli_global:
  assumes "cli_ok s" "\<not> cli_exited s"
  shows "execute_command (CLICommands e fsize) ''global'' arg s =
    Inr (print_text (concat (map (\<lambda>p. '' '' @ res_name (resOf (cli_db s) p) @
      (if (local_ip (cli_db s), res_key (resOf (cli_db s) p)) \<in> owners (cli_db s) then '' [owned]'' else []) @
      (if invalidated (resOf (cli_db s) p) then '' [revoked]'' else []) @ endl) (resources (cli_db s)))) s)"
  using execute_command_simps(4) [OF assms(2), of e fsize] cmd_global_ok [OF assms(1)] by simp

end
