(* ===== verification/Main_Program.thy ===== *)
theory Main_Program
  imports CLI_Model Download_Service
begin

text \<open>
  \<^verbatim>\<open>src/main.cpp\<close>, \<^verbatim>\<open>UdpModule.cpp\<close> and \<^verbatim>\<open>RequestServerModule.cpp\<close>: the modules around one
  database and one file manager. The threads of the command line, of the UDP and TCP modules
  and of finished downloads act on the shared objects one call at a time; a run of the program
  is a sequence of such calls (\<open>prog_run\<close>). What Boost makes of the command line and of an
  address are parameters of \<open>main_start\<close>.
\<close>

section \<open>The modules together\<close>

record 'ip program =
  prog_cli :: "'ip CLI"
  prog_server :: "Udp_Server option"
  prog_requests :: "RequestServer option"
  prog_files :: FileManager

text \<open>The database at the start holds one file of size 0.\<close>

definition main_database :: "(hptr \<Rightarrow> time_t) \<Rightarrow> 'ip \<Rightarrow> 'ip database result" where
  "main_database fresh ip =
     add_file_local (Resource_new ''XD'' 0 default_path) (Resource_Database_new fresh ip)"

definition main_program :: "(hptr \<Rightarrow> time_t) \<Rightarrow> 'ip \<Rightarrow> disk \<Rightarrow> 'ip program result" where
  "main_program fresh ip d =
     bindE (main_database fresh ip) (\<lambda>db.
       Inr \<lparr>prog_cli = \<lparr>cli_db = db, cli_printer = print (''Init Done'' @ endl) (print_init Printer_new),
                          cli_client = None, cli_downloads = [], cli_exited = False\<rparr>,
            prog_server = None, prog_requests = None, prog_files = FileManager_new d\<rparr>)"

text \<open>
  The options: Boost's parser throws or gives the values by name. An error is printed, the
  help screen is shown, and either way \<open>main\<close> goes on with the empty string for an address it
  does not have. The results are both addresses and what is printed to \<open>std::cerr\<close>.
\<close>

definition main_options :: "string + (string \<Rightarrow> string option) \<Rightarrow> string \<times> string \<times> string" where
  "main_options parsed =
     (case parsed of
        Inl what \<Rightarrow> ([], [], what @ endl)
      | Inr vm \<Rightarrow>
          (case vm ''help'' of
             Some _ \<Rightarrow> ([], [], [])
           | None \<Rightarrow>
               (case vm ''my_ip'' of
                  None \<Rightarrow> ([], [], ''No Host IP'' @ endl)
                | Some ip \<Rightarrow>
                    (case vm ''broadcast_ip'' of
                       None \<Rightarrow> (ip, [], ''No broadcast IP'' @ endl)
                     | Some broadcast_ip \<Rightarrow> (ip, broadcast_ip, [])))))"

text \<open>\<open>None\<close>: \<open>from_string\<close> throws and nothing catches the exception.\<close>

definition main_start ::
    "(string \<Rightarrow> 'ip option) \<Rightarrow> string + (string \<Rightarrow> string option) \<Rightarrow> (hptr \<Rightarrow> time_t) \<Rightarrow> disk \<Rightarrow>
     'ip program result option" where
  "main_start from_string parsed fresh d =
     (let (own_ip, broadcast_ip, _) = main_options parsed
      in case from_string own_ip of
           None \<Rightarrow> None
         | Some ip \<Rightarrow> (case from_string broadcast_ip of None \<Rightarrow> None | Some _ \<Rightarrow> Some (main_program fresh ip d)))"

definition beacon_interval :: Uint32 where
  "beacon_interval = 5"

text \<open>\<open>run_server\<close>, up to \<open>io_service.run\<close>: client and server exist.\<close>

definition run_server :: "nat \<Rightarrow> 'ip program \<Rightarrow> 'ip program" where
  "run_server now s =
     s\<lparr>prog_cli := (prog_cli s)\<lparr>cli_client := Some (Udp_Client_new now beacon_interval)\<rparr>,
       prog_server := Some Udp_Server_new\<rparr>"

text \<open>
  What happens next: the threads of the two modules start, a line is typed, a datagram
  arrives, the beacon's timer fires, a send completes, a connection is accepted, a worker's
  read or write completes, or a download that was started ends with its buffer complete and
  stores it. A download ends with \<open>data\<close> in its buffer; \<open>junk\<close>, \<open>created\<close> and \<open>room\<close>
  are the file system's part in \<open>store_resource\<close>.
\<close>

datatype 'ip prog_event =
    Run_Server nat
  | Run_Requests "Uint8 list"
  | Typed string
  | Datagram "'ip recv_event"
  | Beacon "hptr set"
  | Send_Completed send_end
  | Accept "Uint8 list" bool bool
  | Request nat read_event
  | Reply_Sent nat bool
  | Download_Stored rptr "Uint8 option list" Uint8 bool nat

text \<open>A worker after its handler: a deleted one is gone.\<close>

definition put_worker :: "nat \<Rightarrow> RequestWorker option \<Rightarrow> RequestServer \<Rightarrow> RequestServer" where
  "put_worker i w srv = srv\<lparr>started_workers :=
     (case w of Some v \<Rightarrow> (started_workers srv)[i := v]
      | None \<Rightarrow> take i (started_workers srv) @ drop (Suc i) (started_workers srv))\<rparr>"

text \<open>The completion of a worker's read; a handler that waits for a lock leaves the state.\<close>

definition request_step :: "endian \<Rightarrow> nat \<Rightarrow> read_event \<Rightarrow> 'ip program \<Rightarrow> 'ip program result" where
  "request_step e i ev s =
     (case prog_requests s of
        Some srv \<Rightarrow>
          if i < length (started_workers srv) \<and> rw_pending (started_workers srv ! i) = Reading
          then (case handle_read e ev (started_workers srv ! i) (prog_files s) of
                  None \<Rightarrow> Inr s
                | Some x \<Rightarrow> bindE x (\<lambda>(w, fm).
                    Inr (s\<lparr>prog_requests := Some (put_worker i w srv), prog_files := fm\<rparr>)))
          else Inr s
      | None \<Rightarrow> Inr s)"

definition reply_step :: "nat \<Rightarrow> bool \<Rightarrow> 'ip program \<Rightarrow> 'ip program result" where
  "reply_step i error s =
     (case prog_requests s of
        Some srv \<Rightarrow>
          if i < length (started_workers srv) \<and> (\<exists>b. rw_pending (started_workers srv ! i) = Writing b)
          then bindE (handle_write error (started_workers srv ! i)) (\<lambda>w.
                 Inr (s\<lparr>prog_requests := Some (put_worker i w srv)\<rparr>))
          else Inr s
      | None \<Rightarrow> Inr s)"

text \<open>The end of a download; storing that waits for a reader leaves the state.\<close>

definition stored_step ::
    "rptr \<Rightarrow> Uint8 option list \<Rightarrow> Uint8 \<Rightarrow> bool \<Rightarrow> nat \<Rightarrow> 'ip program \<Rightarrow> 'ip program result" where
  "stored_step p data junk created room s =
     (if p \<in> set (cli_downloads (prog_cli s))
      then bindE (deref_res (cli_db (prog_cli s)) p) (\<lambda>resource.
             let cr = CompleteResource_new resource;
                 cr = cr\<lparr>cr_data := take (length (cr_data cr)) (data @ cr_data cr)\<rparr>
             in case store_file junk created room cr (cli_db (prog_cli s), prog_files s) of
                  None \<Rightarrow> Inr s
                | Some x \<Rightarrow> bindE x (\<lambda>(db, fm).
                    Inr (s\<lparr>prog_cli := (prog_cli s)\<lparr>cli_db := db\<rparr>, prog_files := fm\<rparr>)))
      else Inr s)"

fun prog_event_step ::
    "endian \<Rightarrow> (string \<Rightarrow> file_size) \<Rightarrow> (string \<Rightarrow> string list) \<Rightarrow> 'ip prog_event \<Rightarrow> 'ip program \<Rightarrow>
     'ip program result" where
  "prog_event_step e fsize tokens (Run_Server now) s =
     (if prog_server s = None then Inr (run_server now s) else Inr s)"
| "prog_event_step e fsize tokens (Run_Requests memory) s =
     (if prog_requests s = None then Inr (s\<lparr>prog_requests := Some (RequestServerModule_run memory)\<rparr>)
      else Inr s)"
| "prog_event_step e fsize tokens (Typed line) s =
     bindE (cli_line (CLICommands e fsize) tokens line (prog_cli s)) (\<lambda>cli. Inr (s\<lparr>prog_cli := cli\<rparr>))"
| "prog_event_step e fsize tokens (Datagram ev) s =
     (case prog_server s of
        Some srv \<Rightarrow>
          if receiving srv
          then bindE (handle_receive e ev (srv, cli_db (prog_cli s))) (\<lambda>(srv, db).
                 Inr (s\<lparr>prog_cli := (prog_cli s)\<lparr>cli_db := db\<rparr>, prog_server := Some srv\<rparr>))
          else Inr s
      | None \<Rightarrow> Inr s)"
| "prog_event_step e fsize tokens (Beacon pinned) s =
     (case cli_client (prog_cli s) of
        Some c \<Rightarrow>
          bindE (fire_beacon e pinned (cli_db (prog_cli s)) c) (\<lambda>(db, c).
            Inr (s\<lparr>prog_cli := (prog_cli s)\<lparr>cli_db := db, cli_client := Some c\<rparr>\<rparr>))
      | None \<Rightarrow> Inr s)"
| "prog_event_step e fsize tokens (Send_Completed ended) s =
     (case cli_client (prog_cli s) of
        Some c \<Rightarrow>
          bindE (client_step (Completed ended) c) (\<lambda>c.
            Inr (s\<lparr>prog_cli := (prog_cli s)\<lparr>cli_client := Some c\<rparr>\<rparr>))
      | None \<Rightarrow> Inr s)"
| "prog_event_step e fsize tokens (Accept memory error allocated) s =
     (case prog_requests s of
        Some srv \<Rightarrow>
          bindE (handle_accept memory error allocated srv) (\<lambda>srv. Inr (s\<lparr>prog_requests := Some srv\<rparr>))
      | None \<Rightarrow> Inr s)"
| "prog_event_step e fsize tokens (Request i ev) s = request_step e i ev s"
| "prog_event_step e fsize tokens (Reply_Sent i error) s = reply_step i error s"
| "prog_event_step e fsize tokens (Download_Stored p data junk created room) s =
     stored_step p data junk created room s"

text \<open>The command \<open>quit\<close> ends the process.\<close>

definition prog_step ::
    "endian \<Rightarrow> (string \<Rightarrow> file_size) \<Rightarrow> (string \<Rightarrow> string list) \<Rightarrow> 'ip prog_event \<Rightarrow> 'ip program \<Rightarrow>
     'ip program result" where
  "prog_step e fsize tokens ev s =
     (if cli_exited (prog_cli s) then Inr s else prog_event_step e fsize tokens ev s)"

section \<open>Safety of the whole program\<close>

definition prog_ok :: "'ip program \<Rightarrow> bool" where
  "prog_ok s \<longleftrightarrow> cli_ok (prog_cli s) \<and>
     (\<forall>srv. prog_server s = Some srv \<longrightarrow> length (recv_buffer srv) = UDP_SERV_BUFFER_SIZE) \<and>
     (\<forall>srv. prog_requests s = Some srv \<longrightarrow>
        (\<exists>memory. new_worker srv = Some (RequestWorker_new memory)) \<and>
        (\<forall>w \<in> set (started_workers srv). worker_ready w))"

text \<open>
  The events the program is safe against, in a state: arguments at most a header long; a
  receive buffer that does not announce more than three files; connections that are
  accepted; requests for files that exist, below 64 MiB, and no request to quit with the name
  of a locked file; downloads of files of at most 65535 segments.
\<close>

definition request_harmless :: "endian \<Rightarrow> Uint8 list \<Rightarrow> RequestWorker \<Rightarrow> FileManager \<Rightarrow> bool" where
  "request_harmless e bytes w fm \<longleftrightarrow> length bytes \<le> MAX_RECV_DATA_LENGHT \<and>
     (case parse_request e (bytes @ drop (length bytes) (recv_data w)) of
        (command, name, file_size, segment) \<Rightarrow>
          (command = REQ_SEGMENT \<longrightarrow> unat file_size < 2 ^ 26 \<and>
             (name \<in> read_locked fm \<or> fm_disk fm name \<noteq> None)) \<and>
          (command = QUIT_CONN \<longrightarrow> name \<notin> read_locked fm))"

fun harmless :: "endian \<Rightarrow> (string \<Rightarrow> string list) \<Rightarrow> 'ip prog_event \<Rightarrow> 'ip program \<Rightarrow> bool" where
  "harmless e tokens (Typed line) s = (\<forall>t \<in> set (tokens line). length t \<le> RESOURCE_HEADER_SIZE)"
| "harmless e tokens (Datagram (Received ip bytes)) s =
     (\<forall>srv. prog_server s = Some srv \<longrightarrow>
        (let buf = fill_buffer bytes (recv_buffer srv)
         in ip \<noteq> local_ip (cli_db (prog_cli s)) \<and> buf ! 0 = FILE_LIST \<longrightarrow> announced e buf \<le> BEACON_MAX_COUNT))"
| "harmless e tokens (Accept memory error allocated) s = (\<not> error)"
| "harmless e tokens (Request i (Read_Data bytes)) s =
     (\<forall>srv. prog_requests s = Some srv \<longrightarrow> i < length (started_workers srv) \<longrightarrow>
        request_harmless e bytes (started_workers srv ! i) (prog_files s))"
| "harmless e tokens (Download_Stored p data junk created room) s =
     (unat (res_size (resOf (cli_db (prog_cli s)) p)) \<le> 65535 * SEGMENT_SIZE)"
| "harmless e tokens _ s = True"

text \<open>The states the program can reach by such events.\<close>

inductive prog_run ::
    "endian \<Rightarrow> (string \<Rightarrow> file_size) \<Rightarrow> (string \<Rightarrow> string list) \<Rightarrow> 'ip program \<Rightarrow> 'ip program \<Rightarrow> bool"
  for e fsize tokens s0 where
  init: "prog_run e fsize tokens s0 s0"
| event: "prog_run e fsize tokens s0 s \<Longrightarrow> harmless e tokens ev s \<Longrightarrow>
    prog_step e fsize tokens ev s = Inr s' \<Longrightarrow> prog_run e fsize tokens s0 s'"

text \<open>A datagram adds only names that fit the header and forgets no resource.\<close>

lemma header_name_length: "length (res_name (Resource_from_header e h)) \<le> 256"
  using length_takeWhile_le [of "\<lambda>b. b \<noteq> 0" "take 256 h"]
  by (simp add: Resource_from_header_def c_string_def bytes_string_def)

lemma read_headers_names:
  "read_headers e buf off n = Inr rs \<Longrightarrow> r \<in> set rs \<Longrightarrow> length (res_name r) \<le> 256"
proof (induction n arbitrary: off rs)
  case (Suc n)
  then obtain h rs' where "read_headers e buf (off + RESOURCE_HEADER_SIZE) n = Inr rs'"
      "rs = Resource_copy (Resource_from_header e h) # rs'"
    by (auto simp: bindE_Inr_iff)
  with Suc.IH Suc.prems(2) header_name_length [of e h] show ?case by (cases "r \<in> set rs'") simp_all
qed simp

lemma handle_datagram_grows:
  assumes "db_inv db" "handle_datagram e ip buf db = Inr db'"
  shows "set (resources db) \<subseteq> set (resources db')"
    and "k \<in> files db' \<Longrightarrow> k \<in> files db \<or> length (fst k) \<le> 256"
proof -
  consider (beacon) rs n where "read_headers e buf 9 n = Inr rs" "update_host ip rs db = Inr db'" |
    (revoked) res where "revoke_resource res db = Inr db'" | (other) "db' = db"
  proof -
    have "(\<exists>n rs. read_headers e buf 9 n = Inr rs \<and> update_host ip rs db = Inr db') \<or>
        (\<exists>res. revoke_resource res db = Inr db') \<or> db' = db"
      using assms(2) unfolding handle_datagram_def Let_def bindE_Inr_iff if_distrib [of "\<lambda>x. x = _"]
      by (metis bindE_Inr_iff Inr_inject)
    then show thesis using that by blast
  qed
  then have "set (resources db) \<subseteq> set (resources db') \<and>
      (k \<in> files db' \<longrightarrow> k \<in> files db \<or> length (fst k) \<le> 256)"
  proof cases
    case beacon
    obtain d where "update_host ip rs db = Inr d" "db_extends db d"
        "abs_db d = spec_update ip (res_key ` set rs) (abs_db db)"
      using update_host_correct [OF assms(1)] by blast
    with beacon(2) have d: "db_extends db db'" "abs_db db' = spec_update ip (res_key ` set rs) (abs_db db)"
      by auto
    have "files db' = files db \<union> res_key ` set rs"
      using arg_cong [OF d(2), of reg_files] by (simp add: abs_db_def spec_update_def)
    with d(1) read_headers_names [OF beacon(1)] show ?thesis by (auto simp: db_extends_def res_key_def)
  next
    case revoked
    obtain d where "revoke_resource res db = Inr d" "abs_db d = spec_revoke (res_key res) (abs_db db)"
      using revoke_resource_correct [OF assms(1)] by blast
    with revoked have "abs_db db' = spec_revoke (res_key res) (abs_db db)" by simp
    from arg_cong [OF this, of reg_files] have "files db' = files db"
      by (simp add: abs_db_def spec_revoke_def)
    with revoke_resource_resources [OF revoked] show ?thesis by simp
  qed simp
  then show "set (resources db) \<subseteq> set (resources db')"
    "k \<in> files db' \<Longrightarrow> k \<in> files db \<or> length (fst k) \<le> 256" by blast+
qed

text \<open>Changes of the database the command line does not see as its own.\<close>

lemma cli_ok_new_db:
  assumes "cli_ok s" "db_inv db" "set (resources (cli_db s)) \<subseteq> set (resources db)"
    and "\<And>k. k \<in> files db \<Longrightarrow> k \<in> files (cli_db s) \<or> length (fst k) \<le> RESOURCE_HEADER_SIZE"
  shows "cli_ok (s\<lparr>cli_db := db\<rparr>)"
  using assms by (fastforce simp: cli_ok_def)

lemma step_datagram:
  assumes "prog_ok s" "harmless e tokens (Datagram ev) s"
  shows "\<exists>s'. prog_event_step e fsize tokens (Datagram ev) s = Inr s' \<and> prog_ok s'"
proof (cases "\<exists>srv. prog_server s = Some srv \<and> receiving srv")
  case True
  then obtain srv where srv: "prog_server s = Some srv" "receiving srv" by blast
  let ?db = "cli_db (prog_cli s)"
  have ok: "cli_ok (prog_cli s)" "db_inv ?db" "length (recv_buffer srv) = UDP_SERV_BUFFER_SIZE"
    using assms(1) srv(1) by (simp_all add: prog_ok_def cli_ok_def)
  show ?thesis
  proof (cases ev)
    case Receive_Error
    with srv ok assms(1) show ?thesis by (simp add: handle_receive_def prog_ok_def)
  next
    case (Received ip bytes)
    let ?buf = "fill_buffer bytes (recv_buffer srv)"
    have len: "length ?buf = UDP_SERV_BUFFER_SIZE" using ok(3) by simp
    have few: "ip \<noteq> local_ip ?db \<longrightarrow> \<not> (?buf ! 0 = FILE_LIST \<and> BEACON_MAX_COUNT < announced e ?buf)"
      using assms(2) Received srv(1) by (auto simp: Let_def)
    obtain db' where "(if ip \<noteq> local_ip ?db then handle_datagram e ip ?buf ?db else Inr ?db) = Inr db'" "db_inv db'"
        "set (resources ?db) \<subseteq> set (resources db')"
        "\<And>k. k \<in> files db' \<Longrightarrow> k \<in> files ?db \<or> length (fst k) \<le> 256"
    proof (cases "ip = local_ip ?db")
      case False
      obtain db' where d: "handle_datagram e ip ?buf ?db = Inr db'" "db_inv db'"
        using handle_datagram_safe [OF ok(2) len, of e ip] few False by auto
      show thesis by (rule that [of db']) (use False d handle_datagram_grows [OF ok(2) d(1)] in auto)
    qed (use ok(2) that [of ?db] in auto)
    moreover from this(2-4) have "cli_ok ((prog_cli s)\<lparr>cli_db := db'\<rparr>)"
      by (intro cli_ok_new_db [OF ok(1)]) fastforce+
    ultimately show ?thesis
      using Received srv len assms(1) by (simp add: handle_receive_eq [OF ok(2)] Let_def prog_ok_def)
  qed
qed (use assms(1) in \<open>auto split: option.splits\<close>)

lemma cli_ok_client:
  "cli_ok s \<Longrightarrow> client_safe c \<Longrightarrow> cli_ok (s\<lparr>cli_client := Some c\<rparr>)"
  by (simp add: cli_ok_def)

lemma generate_headers_ok:
  assumes "cli_ok s"
  shows "\<exists>headers. generate_database_headers e (cli_db s) = Inr headers"
proof -
  let ?db = "cli_db s"
  let ?rs = "map (resOf ?db) (possesed_resources (hostOf ?db (my_host ?db)))"
  have inv: "db_inv ?db" using assms by (simp add: cli_ok_def)
  have "\<exists>h. generate_resource_header e r = Inr h" if r: "r \<in> set ?rs" for r
  proof -
    from r obtain p where "p \<in> set (resources ?db)" "r = resOf ?db p"
      using db_inv_possesed [OF inv db_inv_my_host [OF inv]] by auto
    then have "res_key r \<in> files ?db" by (auto simp: files_def)
    then have "length (res_name r) \<le> 264" using assms by (auto simp: cli_ok_def res_key_def)
    from length_resource_header [OF this, of e] show ?thesis by blast
  qed
  then have "\<exists>hs. mapE (generate_resource_header e) ?rs = Inr hs"
    by (auto simp: mapE_succeeds)
  then show ?thesis by (simp only: generate_database_headers_eq [OF inv])
qed

lemma step_beacon:
  assumes "prog_ok s"
  shows "\<exists>s'. prog_event_step e fsize tokens (Beacon pinned) s = Inr s' \<and> prog_ok s'"
proof (cases "cli_client (prog_cli s)")
  case (Some c)
  have ok: "cli_ok (prog_cli s)" "db_inv (cli_db (prog_cli s))" "client_safe c"
    using assms Some by (simp_all add: prog_ok_def cli_ok_def)
  obtain headers where "generate_database_headers e (cli_db (prog_cli s)) = Inr headers"
    using generate_headers_ok [OF ok(1)] by blast
  moreover obtain c' where c': "beacon_loop e headers c = Inr c'" "client_safe c'"
    using beacon_loop_safe [OF ok(3)] by blast
  moreover have "check_for_gone_hosts pinned LEFT_MARGIN (cli_db (prog_cli s)) = Inr (cli_db (prog_cli s))"
    by (rule check_for_gone_hosts_noop [OF ok(2)]) simp
  moreover have "client_safe (c'\<lparr>expires_at := expires_at c' + unat (beacon_timeout c')\<rparr>)"
    using c'(2) by (simp add: client_safe_def)
  ultimately show ?thesis
    using Some assms by (simp add: fire_beacon_def prog_ok_def cli_ok_def)
qed (use assms in simp)

lemma prog_ok_put_worker:
  assumes "prog_ok s" "prog_requests s = Some srv" "\<And>v. w = Some v \<Longrightarrow> worker_ready v"
  shows "prog_ok (s\<lparr>prog_requests := Some (put_worker i w srv)\<rparr>)"
proof -
  have ok: "\<forall>v \<in> set (started_workers srv). worker_ready v"
      "\<exists>memory. new_worker srv = Some (RequestWorker_new memory)"
    using assms(1,2) by (simp_all add: prog_ok_def)
  have "\<forall>v \<in> set (started_workers (put_worker i w srv)). worker_ready v"
  proof (cases w)
    case None
    then show ?thesis
      using ok(1) set_take_subset [of i "started_workers srv"] set_drop_subset [of "Suc i" "started_workers srv"]
      by (auto simp: put_worker_def)
  next
    case (Some v)
    then show ?thesis
      using ok(1) assms(3) set_update_subset_insert [of "started_workers srv" i v] by (auto simp: put_worker_def)
  qed
  with ok(2) assms(1) show ?thesis by (simp add: prog_ok_def put_worker_def)
qed

lemma prog_ok_files [simp]: "prog_ok (s\<lparr>prog_files := fm\<rparr>) = prog_ok s"
  by (simp add: prog_ok_def)

lemma step_request:
  assumes "prog_ok s" "harmless e tokens (Request i ev) s"
  shows "\<exists>s'. request_step e i ev s = Inr s' \<and> prog_ok s'"
proof (cases "\<exists>srv. prog_requests s = Some srv \<and> i < length (started_workers srv) \<and>
    rw_pending (started_workers srv ! i) = Reading")
  case True
  then obtain srv where srv: "prog_requests s = Some srv" "i < length (started_workers srv)"
      "rw_pending (started_workers srv ! i) = Reading" by blast
  let ?w = "started_workers srv ! i"
  have w: "worker_ready ?w" using assms(1) srv(1,2) by (simp add: prog_ok_def)
  have "handle_read e ev ?w (prog_files s) = None \<or>
      (\<exists>w' fm'. handle_read e ev ?w (prog_files s) = Some (Inr (w', fm')) \<and> (\<forall>v. w' = Some v \<longrightarrow> worker_ready v))"
  proof (cases ev)
    case Read_Error
    then show ?thesis using worker_ready_delete [OF w] by (simp add: handle_read_def)
  next
    case (Read_Data bytes)
    obtain command name sz segment where p:
      "parse_request e (bytes @ drop (length bytes) (recv_data ?w)) = (command, name, sz, segment)"
      by (rule prod_cases4)
    have h: "length bytes \<le> MAX_RECV_DATA_LENGHT"
        "command = REQ_SEGMENT \<longrightarrow> unat sz < 2 ^ 26 \<and> (name \<in> read_locked (prog_files s) \<or> fm_disk (prog_files s) name \<noteq> None)"
        "command = QUIT_CONN \<longrightarrow> name \<notin> read_locked (prog_files s)"
      using assms(2) Read_Data srv(1,2) p by (simp_all add: request_harmless_def)
    from handle_read_outcome [OF w h(1) p refl, of "prog_files s"] h(2,3) Read_Data
    show ?thesis by (auto split: if_splits)
  qed
  then show ?thesis
    using srv assms(1) prog_ok_put_worker [OF assms(1) srv(1)] by (auto simp: request_step_def)
qed (use assms(1) in \<open>auto simp: request_step_def split: option.splits\<close>)

lemma step_reply:
  assumes "prog_ok s"
  shows "\<exists>s'. reply_step i error s = Inr s' \<and> prog_ok s'"
proof (cases "\<exists>srv. prog_requests s = Some srv \<and> i < length (started_workers srv) \<and>
    (\<exists>b. rw_pending (started_workers srv ! i) = Writing b)")
  case True
  then obtain srv where srv: "prog_requests s = Some srv" "i < length (started_workers srv)"
      "\<exists>b. rw_pending (started_workers srv ! i) = Writing b" by blast
  let ?w = "started_workers srv ! i"
  have w: "worker_ready ?w" using assms(1) srv(1,2) by (simp add: prog_ok_def)
  then have "handle_write error ?w = Inr (if error then None else Some (?w\<lparr>rw_pending := Reading\<rparr>))"
    using worker_ready_delete [OF w] by (simp add: handle_write_def)
  moreover have "worker_ready (?w\<lparr>rw_pending := Reading\<rparr>)" using w by (simp add: worker_ready_def)
  ultimately show ?thesis
    using srv prog_ok_put_worker [OF assms srv(1), of "if error then None else Some (?w\<lparr>rw_pending := Reading\<rparr>)" i]
    by (auto simp: reply_step_def)
qed (use assms in \<open>auto simp: reply_step_def split: option.splits\<close>)

lemma step_accept:
  assumes "prog_ok s"
  shows "\<exists>s'. prog_event_step e fsize tokens (Accept memory False allocated) s = Inr s' \<and> prog_ok s'"
proof (cases "prog_requests s")
  case (Some srv)
  then obtain memory' where "new_worker srv = Some (RequestWorker_new memory')"
      and ready: "\<forall>w \<in> set (started_workers srv). worker_ready w"
    using assms by (auto simp: prog_ok_def)
  then have "srv = start_accept memory' srv" by (simp add: start_accept_def)
  with accept_outcomes [of memory False allocated memory' srv]
  have "handle_accept memory False allocated srv = Inr (start_accept memory (if allocated
      then srv\<lparr>started_workers := started_workers srv @
             [(RequestWorker_new memory')\<lparr>send_data := Allocated (replicate SEGMENT_SIZE None),
                rw_pending := Reading\<rparr>]\<rparr> else srv))"
    by simp
  with Some ready assms show ?thesis
    by (auto simp: prog_ok_def start_accept_def worker_ready_def RequestWorker_new_def)
qed (use assms in simp)

text \<open>Storing a buffer whose file can be read: it waits for a reader, or goes through.\<close>

lemma store_file_runs:
  assumes "prog_ok s" "p \<in> set (resources (cli_db (prog_cli s)))"
    and "cr_resource cr = resOf (cli_db (prog_cli s)) p" "file_contents cr = Inr c"
  obtains db where "add_file_local (cr_resource cr) (cli_db (prog_cli s)) = Inr db"
    "db_extends (cli_db (prog_cli s)) db" "files db = files (cli_db (prog_cli s))"
    "cli_ok ((prog_cli s)\<lparr>cli_db := db\<rparr>)"
    "store_file junk created room cr (cli_db (prog_cli s), prog_files s) =
       map_option (\<lambda>x. bindE x (\<lambda>fm. Inr (db, fm))) (store_resource junk created room cr (prog_files s))"
    "store_resource junk created room cr (prog_files s) = None \<or>
       (\<exists>fm. store_resource junk created room cr (prog_files s) = Some (Inr fm))"
proof -
  let ?db = "cli_db (prog_cli s)" and ?r = "cr_resource cr"
  have ok: "cli_ok (prog_cli s)" "db_inv ?db" using assms(1) by (simp_all add: prog_ok_def cli_ok_def)
  obtain db where db: "add_file_local ?r ?db = Inr db" "db_inv db" "db_extends ?db db"
      "abs_db db = spec_add (res_key ?r) (local_ip ?db) (abs_db ?db)"
    using add_file_local_correct [OF ok(2)] by blast
  have "files db = insert (res_key ?r) (files ?db)"
    using arg_cong [OF db(4), of reg_files] by (simp add: abs_db_def spec_add_def)
  moreover have "res_key ?r \<in> files ?db" using assms(2,3) by (auto simp: files_def)
  ultimately have files: "files db = files ?db" by auto
  then have cli: "cli_ok ((prog_cli s)\<lparr>cli_db := db\<rparr>)"
    using db by (intro cli_ok_new_db [OF ok(1)]) (auto simp: db_extends_def)
  have "store_resource junk created room cr (prog_files s) = None \<or>
      (\<exists>fm. store_resource junk created room cr (prog_files s) = Some (Inr fm))"
    using assms(4) by (auto simp: store_resource_def Let_def split: option.splits)
  with that [OF db(1,3) files cli] db(1) show thesis by (simp add: store_file_def)
qed

lemma step_stored:
  assumes "prog_ok s" "harmless e tokens (Download_Stored p data junk created room) s"
  shows "\<exists>s'. stored_step p data junk created room s = Inr s' \<and> prog_ok s'"
proof (cases "p \<in> set (cli_downloads (prog_cli s))")
  case True
  let ?db = "cli_db (prog_cli s)"
  let ?r = "resOf ?db p"
  let ?new = "CompleteResource_new ?r"
  let ?cr = "?new\<lparr>cr_data := take (length (cr_data ?new)) (data @ cr_data ?new)\<rparr>"
  have p: "db_inv ?db" "p \<in> set (resources ?db)"
    using assms(1) True by (auto simp: prog_ok_def cli_ok_def)
  have r: "deref_res ?db p = Inr ?r" by (rule deref_res_ok [OF db_inv_res [OF p]])
  have size: "unat (res_size ?r) \<le> 65535 * SEGMENT_SIZE" using assms(2) by simp
  have "unat (res_size ?r) \<le> length (cr_data ?cr)"
    using segments_cover [OF size] by (simp add: CompleteResource_new_def Let_def)
  moreover have key: "cr_resource ?cr = ?r" by (simp add: CompleteResource_new_def Let_def)
  ultimately obtain c where c: "file_contents ?cr = Inr c" by (auto simp: file_contents_def mem_range_def)
  obtain db where "cli_ok ((prog_cli s)\<lparr>cli_db := db\<rparr>)"
      "store_file junk created room ?cr (?db, prog_files s) = None \<or>
       (\<exists>fm. store_file junk created room ?cr (?db, prog_files s) = Some (Inr (db, fm)))"
    by (rule store_file_runs [OF assms(1) p(2) key c, of junk created room]) auto
  then show ?thesis
    using True r assms(1) by (auto simp: stored_step_def Let_def prog_ok_def)
qed (use assms in \<open>simp add: stored_step_def\<close>)

lemma prog_step_ok:
  assumes "prog_ok s" "harmless e tokens ev s"
  shows "\<exists>s'. prog_step e fsize tokens ev s = Inr s' \<and> prog_ok s'"
proof -
  have "\<exists>s'. prog_event_step e fsize tokens ev s = Inr s' \<and> prog_ok s'"
  proof (cases ev)
    case (Run_Server now)
    with assms show ?thesis
      by (auto simp: prog_ok_def run_server_def Udp_Server_new_def client_safe_def Udp_Client_new_def
          intro!: cli_ok_client)
  next
    case (Run_Requests memory)
    with assms show ?thesis
      by (auto simp: prog_ok_def RequestServerModule_run_def init2_def start_accept_def RequestServer_new_def)
  next
    case (Typed line)
    have ok: "cli_ok (prog_cli s)" using assms(1) by (simp add: prog_ok_def)
    obtain cli where "cli_line (CLICommands e fsize) tokens line (prog_cli s) = Inr cli" "cli_ok cli"
      using cli_line_ok [OF ok, of tokens line e fsize] assms(2) Typed by auto
    with Typed assms(1) show ?thesis by (simp add: prog_ok_def)
  next
    case (Datagram ev)
    with assms step_datagram show ?thesis by blast
  next
    case (Beacon pinned)
    with assms step_beacon show ?thesis by blast
  next
    case (Send_Completed ended)
    show ?thesis
    proof (cases "cli_client (prog_cli s)")
      case (Some c)
      then have "client_safe c" using assms(1) by (simp add: prog_ok_def cli_ok_def)
      then obtain c' where "client_step (Completed ended) c = Inr c'" "client_safe c'"
        using completion_safe [of c True ended] by (cases "in_flight c") auto
      with Some Send_Completed assms(1) cli_ok_client [of "prog_cli s" c'] show ?thesis
        by (simp add: prog_ok_def)
    qed (use Send_Completed assms(1) in simp)
  next
    case (Accept memory error allocated)
    with assms step_accept show ?thesis by simp
  next
    case (Request i ev)
    with assms step_request show ?thesis by fastforce
  next
    case (Reply_Sent i error)
    with assms(1) step_reply show ?thesis by fastforce
  next
    case (Download_Stored p data junk created room)
    with assms step_stored show ?thesis by fastforce
  qed
  with assms(1) show ?thesis by (auto simp: prog_step_def)
qed

lemma prog_run_ok:
  assumes "prog_run e fsize tokens s0 s" "prog_ok s0"
  shows "prog_ok s"
  using assms
proof (induction rule: prog_run.induct)
  case (event s ev s')
  then show ?case using prog_step_ok [of s e tokens ev fsize] by auto
qed simp

lemma main_program_state:
  obtains s where "main_program fresh ip d = Inr s" "prog_ok s" "\<not> cli_exited (prog_cli s)"
    "prog_server s = None" "cli_client (prog_cli s) = None" "local_ip (cli_db (prog_cli s)) = ip"
    "owners (cli_db (prog_cli s)) = {(ip, ''XD'', 0)}" "files (cli_db (prog_cli s)) = {(''XD'', 0)}"
proof -
  obtain db where db: "main_database fresh ip = Inr db" "db_inv db"
      "abs_db db = spec_add (''XD'', 0) ip (abs_db (Resource_Database_new fresh ip))"
    using add_file_local_correct [OF Resource_Database_new_correct(1) [of fresh ip],
        of "Resource_new ''XD'' 0 default_path"] Resource_Database_new_correct(2) [of fresh ip]
    by (auto simp: main_database_def res_key_def Resource_new_def abs_db_def)
  have "files db = {(''XD'', 0)}" "owners db = {(ip, ''XD'', 0)}" "local_ip db = ip"
    using arg_cong [OF db(3), of reg_files] arg_cong [OF db(3), of reg_owners]
      arg_cong [OF db(3), of reg_local] Resource_Database_new_correct(2) [of fresh ip]
    by (simp_all add: abs_db_def spec_add_def)
  moreover obtain s where s: "main_program fresh ip d = Inr s"
    using db(1) by (simp add: main_program_def)
  ultimately show thesis
    using db(1,2) by (intro that [OF s]) (auto simp: main_program_def prog_ok_def cli_ok_def)
qed

lemma main_then_server:
  obtains s0 s where "main_program fresh ip d = Inr s0" "prog_run e fsize tokens s0 s"
    "\<not> cli_exited (prog_cli s)" "cli_client (prog_cli s) = Some (Udp_Client_new now beacon_interval)"
    "prog_server s = Some Udp_Server_new" "local_ip (cli_db (prog_cli s)) = ip"
    "owners (cli_db (prog_cli s)) = {(ip, ''XD'', 0)}" "files (cli_db (prog_cli s)) = {(''XD'', 0)}"
proof (rule main_program_state [of fresh ip d])
  fix s0
  assume s0: "main_program fresh ip d = Inr s0" "\<not> cli_exited (prog_cli s0)" "prog_server s0 = None"
    "local_ip (cli_db (prog_cli s0)) = ip" "owners (cli_db (prog_cli s0)) = {(ip, ''XD'', 0)}"
    "files (cli_db (prog_cli s0)) = {(''XD'', 0)}"
  then have "harmless e tokens (Run_Server now) s0"
      "prog_step e fsize tokens (Run_Server now) s0 = Inr (run_server now s0)"
    by (simp_all add: prog_step_def)
  then have "prog_run e fsize tokens s0 (run_server now s0)" by (blast intro: prog_run.intros)
  with s0 show thesis by (intro that [of s0 "run_server now s0"]) (simp_all add: run_server_def)
qed

lemma main_program_ok:
  "\<exists>s. main_program fresh ip d = Inr s \<and> prog_ok s"
  by (rule main_program_state [of fresh ip d]) blast

text \<open>
  If the empty string is no address, \<open>main\<close> starts exactly when both options are given, \<open>help\<close>
  is not, and both are addresses; asked for help or given one option only, it terminates with
  an uncaught exception after its message.
\<close>

lemma main_start_outcome:
  assumes "from_string [] = None"
  shows "main_start from_string parsed fresh d =
    (case parsed of
       Inl _ \<Rightarrow> None
     | Inr vm \<Rightarrow>
         if vm ''help'' = None
         then (case (Option.bind (vm ''my_ip'') from_string, Option.bind (vm ''broadcast_ip'') from_string) of
                 (Some ip, Some _) \<Rightarrow> Some (main_program fresh ip d)
               | _ \<Rightarrow> None)
         else None)"
  using assms by (auto simp: main_start_def main_options_def split: sum.split option.split)

text \<open>The running program does not fault: in every state that is reached from \<open>main\<close> by
  harmless events, in any interleaving of typed lines, datagrams from any address, beacons,
  completions of sends, connections, requests, replies and ends of downloads, every harmless
  event is handled without dereferencing a dead pointer, using an invalid iterator or
  leaving a buffer, and the database keeps its invariant.\<close>

lemma program_never_faults:
  assumes "main_program fresh ip d = Inr s0" "prog_run e fsize tokens s0 s" "harmless e tokens ev s"
  shows "\<exists>s'. prog_step e fsize tokens ev s = Inr s' \<and> db_inv (cli_db (prog_cli s'))"
proof -
  have "prog_ok s0" using main_program_ok [of fresh ip d] assms(1) by auto
  then have "prog_ok s" by (rule prog_run_ok [OF assms(2)])
  from prog_step_ok [OF this assms(3), of fsize] show ?thesis unfolding prog_ok_def cli_ok_def by blast
qed

lemma program_never_faults_run:
  "\<exists>s0 s1 s2 s3 s4. main_program (\<lambda>_. 0) (7 :: nat) [''f'' \<mapsto> [1, 2]] = Inr s0 \<and>
    prog_step Little (\<lambda>_. Size 2) (\<lambda>line. [''add'', line]) (Run_Server 0) s0 = Inr s1 \<and>
    prog_step Little (\<lambda>_. Size 2) (\<lambda>line. [''add'', line]) (Typed ''f'') s1 = Inr s2 \<and>
    prog_step Little (\<lambda>_. Size 2) (\<lambda>line. [''add'', line]) (Run_Requests []) s2 = Inr s3 \<and>
    prog_step Little (\<lambda>_. Size 2) (\<lambda>line. [''add'', line]) (Accept [] False True) s3 = Inr s4 \<and>
    db_inv (cli_db (prog_cli s4))"
proof -
  let ?step = "prog_step Little (\<lambda>_. Size 2) (\<lambda>line. [''add'', line])"
  let ?run = "prog_run Little (\<lambda>_. Size 2) (\<lambda>line. [''add'', line])"
  let ?ok = "harmless Little (\<lambda>line. [''add'', line])"
  obtain s0 where s0: "main_program (\<lambda>_. 0) (7 :: nat) [''f'' \<mapsto> [1, 2]] = Inr s0"
    using main_program_ok [of "\<lambda>_. 0" "7 :: nat" "[''f'' \<mapsto> [1, 2]]"] by blast
  note next_state = program_never_faults [OF s0, of Little "\<lambda>_. Size 2" "\<lambda>line. [''add'', line]"]
  have h0: "?ok (Run_Server 0) s0" by simp
  obtain s1 where s1: "?step (Run_Server 0) s0 = Inr s1" using next_state [OF prog_run.init h0] by blast
  note r1 = prog_run.event [OF prog_run.init h0 s1]
  have h1: "?ok (Typed ''f'') s1" by simp
  obtain s2 where s2: "?step (Typed ''f'') s1 = Inr s2" using next_state [OF r1 h1] by blast
  note r2 = prog_run.event [OF r1 h1 s2]
  have h2: "?ok (Run_Requests []) s2" by simp
  obtain s3 where s3: "?step (Run_Requests []) s2 = Inr s3" using next_state [OF r2 h2] by blast
  note r3 = prog_run.event [OF r2 h2 s3]
  have "?ok (Accept [] False True) s3" by simp
  with next_state [OF r3] s0 s1 s2 s3 show ?thesis by blast
qed

end
