(* ===== verification/Byte_Order.thy ===== *)
theory Byte_Order
  imports Download_Service Main_Program
begin

text \<open>
  Hosts of different byte orders. Every multi-octet field is converted where it is written
  (\<open>htobe64\<close>, \<open>htons\<close>) and where it is read (\<open>be64toh\<close>, \<open>ntohs\<close>), so the program computes
  the same on all of them: each function that takes the host's byte order is equal to its
  big-endian instance.
\<close>

section \<open>Writers\<close>

lemma resource_header_Big: "generate_resource_header e = generate_resource_header Big"
  by (rule ext) (simp add: generate_resource_header_def store_hton)

lemma segment_request_Big: "serialize_segment_request e cr i = serialize_segment_request Big cr i"
  using resource_header_Big [of e] by (simp add: serialize_segment_request_def store_hton)

lemma beacon_packet_Big: "beacon_packet e = beacon_packet Big"
  by (rule ext) (simp add: beacon_packet_def store_hton)

lemma beacon_loop_Big: "beacon_loop e headers c = beacon_loop Big headers c"
proof (induction "length headers" arbitrary: headers c rule: less_induct)
  case less
  have "beacon_loop e (take (length headers - i) headers) = beacon_loop Big (take (length headers - i) headers)"
    if "0 < i" "i \<le> length headers" for i
    by (rule ext, rule less) (use that in simp)
  then show ?case
    unfolding beacon_loop.simps [of e headers] beacon_loop.simps [of Big headers]
      beacon_packet_Big [of e] Let_def
    by (auto split: if_splits)
qed

lemma database_headers_Big: "generate_database_headers e db = generate_database_headers Big db"
  unfolding generate_database_headers_def resource_header_Big [of e] ..

lemma fire_beacon_Big: "fire_beacon e pinned db c = fire_beacon Big pinned db c"
  unfolding fire_beacon_def database_headers_Big [of e] beacon_loop_Big [of e] ..

lemma module_revoke_Big: "module_revoke_file e = module_revoke_file Big"
  unfolding module_revoke_file_def revoke_file_def resource_header_Big [of e] ..

section \<open>Readers\<close>

lemma Resource_from_header_Big: "Resource_from_header e = Resource_from_header Big"
proof
  fix h
  show "Resource_from_header e h = Resource_from_header Big h"
  proof (cases "RESOURCE_HEADER_SIZE \<le> length h")
    case True
    then have "length (take 8 (drop 256 h)) = LENGTH(64) div 8" by simp
    from hton_load [OF _ this, of e] hton_load [OF _ this, of Big] show ?thesis
      by (simp add: Resource_from_header_def)
  qed (simp add: Resource_from_header_def)
qed

lemma read_headers_Big: "read_headers e buf off n = read_headers Big buf off n"
  by (induction n arbitrary: off) (simp_all add: Resource_from_header_Big [of e])

lemma handle_datagram_Big:
  assumes "9 \<le> length buf"
  shows "handle_datagram e ip buf db = handle_datagram Big ip buf db"
proof -
  have "length (take 8 (drop 1 buf)) = LENGTH(64) div 8" using assms by simp
  from hton_load [OF _ this, of e] hton_load [OF _ this, of Big]
  have "hton e (load_word e (take 8 (drop 1 buf))) = (hton Big (load_word Big (take 8 (drop 1 buf))) :: Uint64)"
    by simp
  then show ?thesis
    unfolding handle_datagram_def Let_def Resource_from_header_Big [of e] read_headers_Big [of e] by simp
qed

lemma handle_receive_Big:
  assumes "length (recv_buffer srv) = UDP_SERV_BUFFER_SIZE"
  shows "handle_receive e ev (srv, db) = handle_receive Big ev (srv, db)"
proof (cases ev)
  case (Received ip bytes)
  have "9 \<le> length (fill_buffer bytes (recv_buffer srv))" using assms by (simp add: fill_buffer_def)
  from handle_datagram_Big [OF this, of e ip db] Received show ?thesis
    by (simp add: handle_receive_def Let_def cong: if_cong)
qed (simp add: handle_receive_def)

lemma parse_request_Big:
  assumes "length recv = MAX_RECV_DATA_LENGHT"
  shows "parse_request e recv = parse_request Big recv"
proof -
  have len: "length (take FILE_SIZE_LENGHT (drop (1 + FILE_NAME_LENGHT) recv)) = LENGTH(64) div 8"
      "length (take 2 (drop (1 + FILE_NAME_LENGHT + FILE_SIZE_LENGHT) recv)) = LENGTH(16) div 8"
    using assms by (simp_all add: MAX_RECV_DATA_LENGHT_def)
  show ?thesis
    using hton_load [OF _ len(1), of e] hton_load [OF _ len(1), of Big]
      hton_load [OF _ len(2), of e] hton_load [OF _ len(2), of Big]
    unfolding parse_request_def Let_def by simp
qed

lemma handle_read_Big:
  assumes "length (recv_data w) = MAX_RECV_DATA_LENGHT" "length bytes \<le> MAX_RECV_DATA_LENGHT"
  shows "handle_read e (Read_Data bytes) w fm = handle_read Big (Read_Data bytes) w fm"
proof -
  have "length (bytes @ drop (length bytes) (recv_data w)) = MAX_RECV_DATA_LENGHT" using assms by simp
  from parse_request_Big [OF this, of e] show ?thesis
    unfolding handle_read_def Let_def by simp
qed

section \<open>The program\<close>

lemma CLICommands_Big: "CLICommands e fsize = CLICommands Big fsize"
  unfolding CLICommands_def cmd_revoke_def module_revoke_Big [of e] ..

lemma request_step_Big:
  assumes "prog_ok s" "\<And>bytes. ev = Read_Data bytes \<Longrightarrow> length bytes \<le> MAX_RECV_DATA_LENGHT"
  shows "request_step e i ev s = request_step Big i ev s"
proof (cases "prog_requests s")
  case (Some srv)
  have "handle_read e ev (started_workers srv ! i) (prog_files s) =
      handle_read Big ev (started_workers srv ! i) (prog_files s)" if "i < length (started_workers srv)"
  proof (cases ev)
    case (Read_Data bytes)
    have "length (recv_data (started_workers srv ! i)) = MAX_RECV_DATA_LENGHT"
      using assms(1) Some that by (simp add: prog_ok_def worker_ready_def)
    from handle_read_Big [OF this assms(2) [OF Read_Data]] Read_Data show ?thesis by simp
  qed (simp add: handle_read_def)
  with Some show ?thesis by (simp add: request_step_def)
qed (simp add: request_step_def)

text \<open>What a socket delivers fits the buffer.\<close>

fun fits_buffer :: "'ip prog_event \<Rightarrow> bool" where
  "fits_buffer (Request i (Read_Data bytes)) = (length bytes \<le> MAX_RECV_DATA_LENGHT)"
| "fits_buffer _ = True"

lemma prog_step_Big:
  fixes s :: "'a program"
  assumes "prog_ok s" "fits_buffer ev"
  shows "prog_step e fsize tokens ev s = prog_step Big fsize tokens ev s"
proof -
  have "prog_event_step e fsize tokens ev s = prog_event_step Big fsize tokens ev s"
  proof (cases ev)
    case (Datagram rev)
    show ?thesis
    proof (cases "prog_server s")
      case (Some srv)
      with assms(1) have "length (recv_buffer srv) = UDP_SERV_BUFFER_SIZE" by (simp add: prog_ok_def)
      from handle_receive_Big [OF this, of e rev "cli_db (prog_cli s)"] Datagram Some show ?thesis
        by (simp cong: if_cong)
    qed (simp add: Datagram)
  next
    case (Typed line)
    then show ?thesis using CLICommands_Big [of e fsize, where ?'a = 'a] by simp
  next
    case (Beacon pinned)
    then show ?thesis using fire_beacon_Big [of e pinned "cli_db (prog_cli s)"]
      by (simp split: option.splits)
  next
    case (Request i rev)
    have "request_step e i rev s = request_step Big i rev s"
      by (rule request_step_Big [OF assms(1)]) (use assms(2) Request in simp)
    with Request show ?thesis by simp
  qed simp_all
  then show ?thesis by (simp add: prog_step_def)
qed

text \<open>C11: The byte order of the host makes no difference: in every state the program can reach,
  every step, and every request a download worker sends, are the same on little-endian and
  big-endian hosts.\<close>

theorem byte_order_irrelevant:
  assumes "main_program fresh ip d = Inr s0" "prog_run e fsize tokens s0 s" "fits_buffer ev"
  shows "prog_step Little fsize tokens ev s = prog_step Big fsize tokens ev s \<and>
    serialize_segment_request Little cr i = serialize_segment_request Big cr i"
proof -
  have "prog_ok s0" using main_program_ok [of fresh ip d] assms(1) by auto
  then have "prog_ok s" by (rule prog_run_ok [OF assms(2)])
  from prog_step_Big [OF this assms(3), of Little] segment_request_Big [of Little cr i] show ?thesis
    by (rule conjI)
qed

theorem byte_order_irrelevant_witness:
  "\<exists>s0 s1. main_program (\<lambda>_. 0) (7 :: nat) (\<lambda>_. None) = Inr s0 \<and> prog_server s1 \<noteq> None \<and>
    prog_step Little (\<lambda>_. Size 1) (\<lambda>line. [line]) (Run_Server 0) s0 = Inr s1 \<and>
    prog_step Little (\<lambda>_. Size 1) (\<lambda>line. [line]) (Datagram (Received 8 [FILE_LIST, 0, 0, 0, 0, 0, 0, 0, 1])) s1 =
    prog_step Big (\<lambda>_. Size 1) (\<lambda>line. [line]) (Datagram (Received 8 [FILE_LIST, 0, 0, 0, 0, 0, 0, 0, 1])) s1"
proof -
  let ?f = "\<lambda>_. Size 1" and ?t = "\<lambda>line. [line]"
  obtain s0 where s0: "main_program (\<lambda>_. 0) (7 :: nat) (\<lambda>_. None) = Inr s0" "prog_ok s0"
    using main_program_ok [of "\<lambda>_. 0" "7 :: nat" "\<lambda>_. None"] by blast
  then have "cli_exited (prog_cli s0) = False" "prog_server s0 = None"
    by (auto simp: main_program_def bindE_Inr_iff)
  then have s1: "prog_step Little ?f ?t (Run_Server 0) s0 = Inr (run_server 0 s0)"
    by (simp add: prog_step_def)
  have run: "prog_run Little ?f ?t s0 (run_server 0 s0)"
    by (rule prog_run.event [OF prog_run.init _ s1]) simp
  have "fits_buffer (Datagram (Received 8 [FILE_LIST, 0, 0, 0, 0, 0, 0, 0, 1]))" by simp
  from byte_order_irrelevant [OF s0(1) run this, THEN conjunct1] s0(1) s1 show ?thesis
    by (intro exI [of _ s0] exI [of _ "run_server 0 s0"]) (simp add: run_server_def)
qed

end
