(* ===== verification/Discovery.thy ===== *)
theory Discovery
  imports Main_Program
begin

text \<open>
  Two hosts: what the datagrams of one host's beacon do to the database of another, and the
  commands and events of two running programs that make a file of one known to the other.
\<close>

section \<open>A beacon received\<close>

text \<open>What a peer learns: the sender has these files; nothing else changes.\<close>

definition learns :: "'ip \<Rightarrow> res_key set \<Rightarrow> 'ip database \<Rightarrow> 'ip database \<Rightarrow> bool" where
  "learns ip ks db db' \<longleftrightarrow> db_inv db' \<and> local_ip db' = local_ip db \<and>
     owners db' = owners db \<union> {ip} \<times> ks \<and> files db' = files db \<union> ks \<and>
     revoked_files db' = revoked_files db \<and> set (resources db) \<subseteq> set (resources db')"

lemma learns_trans:
  "learns ip ks db db1 \<Longrightarrow> learns ip ls db1 db2 \<Longrightarrow> learns ip (ks \<union> ls) db db2"
  by (auto simp: learns_def)

lemma learns_update:
  assumes "db_inv db'" "abs_db db' = spec_update ip ks (abs_db db)"
    and "set (resources db) \<subseteq> set (resources db')"
  shows "learns ip ks db db'"
  using arg_cong [OF assms(2), of reg_local] arg_cong [OF assms(2), of reg_owners]
    arg_cong [OF assms(2), of reg_files] arg_cong [OF assms(2), of reg_revoked] assms(1,3)
  by (simp add: learns_def abs_db_def spec_update_def)

lemma receive_grows:
  assumes "db_inv db" "handle_receive e (Received ip bytes) (srv, db) = Inr (srv', db')"
  shows "set (resources db) \<subseteq> set (resources db')"
proof (cases "ip = local_ip db")
  case False
  with assms(2) have "handle_datagram e ip (fill_buffer bytes (recv_buffer srv)) db = Inr db'"
    by (auto simp: handle_receive_eq [OF assms(1)] Let_def bindE_Inr_iff)
  then show ?thesis by (rule handle_datagram_grows(1) [OF assms(1)])
qed (use assms in \<open>simp add: handle_receive_eq Let_def\<close>)

text \<open>The datagrams of a beacon, received one after the other.\<close>

lemma deliver_groups:
  assumes "db_inv db" "length (recv_buffer srv) = UDP_SERV_BUFFER_SIZE" "ip \<noteq> local_ip db" "receiving srv"
    and "\<forall>g \<in> set groups. length g \<le> 3 \<and> (\<forall>h \<in> set g. length h = RESOURCE_HEADER_SIZE)"
  shows "\<exists>srv' db'. foldE (handle_receive e') (map (\<lambda>g. Received ip (beacon_packet e g)) groups) (srv, db) =
      Inr (srv', db') \<and> receiving srv' \<and> length (recv_buffer srv') = UDP_SERV_BUFFER_SIZE \<and>
    learns ip ((\<lambda>h. res_key (Resource_from_header e' h)) ` set (concat groups)) db db'"
  using assms
proof (induction groups arbitrary: srv db)
  case Nil
  then show ?case by (simp add: learns_def)
next
  case (Cons g groups)
  let ?key = "\<lambda>h. res_key (Resource_from_header e' h)"
  from Cons have g: "length g \<le> 3" "\<forall>h \<in> set g. length h = RESOURCE_HEADER_SIZE" by simp_all
  obtain rest db1 where 1: "handle_receive e' (Received ip (beacon_packet e g)) (srv, db) =
      Inr (srv\<lparr>recv_buffer := beacon_packet e g @ rest, receiving := True\<rparr>, db1)" "db_inv db1"
      "length (beacon_packet e g @ rest) = UDP_SERV_BUFFER_SIZE"
      "abs_db db1 = spec_update ip (?key ` set g) (abs_db db)"
    using handle_receive_beacon [OF Cons.prems(1-3) g] by blast
  have l: "learns ip (?key ` set g) db db1" by (rule learns_update [OF 1(2,4) receive_grows [OF Cons.prems(1) 1(1)]])
  let ?srv = "srv\<lparr>recv_buffer := beacon_packet e g @ rest, receiving := True\<rparr>"
  have srv: "length (recv_buffer ?srv) = UDP_SERV_BUFFER_SIZE" "ip \<noteq> local_ip db1" "receiving ?srv"
    using 1(3) l Cons.prems(3) by (simp_all add: learns_def)
  from Cons.IH [OF 1(2) srv] Cons.prems(5) obtain srv' db' where 2:
    "foldE (handle_receive e') (map (\<lambda>g. Received ip (beacon_packet e g)) groups) (?srv, db1) = Inr (srv', db')"
    "receiving srv'" "length (recv_buffer srv') = UDP_SERV_BUFFER_SIZE"
    "learns ip (?key ` set (concat groups)) db1 db'"
    by auto
  have "learns ip (?key ` set (concat (g # groups))) db db'"
    using learns_trans [OF l 2(4)] by (simp add: image_Un)
  with 1(1) 2 show ?case by simp
qed

lemma beacon_received:
  assumes "db_inv db" "advertisable db" "client_ok c" "db_inv peer_db" "local_ip peer_db \<noteq> local_ip db"
    and "length (recv_buffer srv) = UDP_SERV_BUFFER_SIZE" "receiving srv"
  shows "\<exists>c' packets srv' peer_db'. fire_beacon e pinned db c = Inr (db, c') \<and>
    accepted c' = accepted c @ packets \<and>
    foldE (handle_receive e') (map (Received (local_ip db)) packets) (srv, peer_db) = Inr (srv', peer_db') \<and>
    receiving srv' \<and> learns (local_ip db) {k. (local_ip db, k) \<in> owners db} peer_db peer_db'"
proof -
  obtain headers where h: "generate_database_headers e db = Inr headers"
      "\<forall>h \<in> set headers. length h = RESOURCE_HEADER_SIZE"
      "map (\<lambda>h. res_key (Resource_from_header e' h)) headers = map res_key (local_files db)"
    using local_headers [OF assms(1,2)] by metis
  let ?groups = "beacon_groups (rev headers)"
  obtain c1 where c1: "beacon_loop e headers c = Inr c1"
      "accepted c1 = accepted c @ map (beacon_packet e) ?groups"
    using beacon_loop_ok [OF assms(3)] by blast
  have fire: "fire_beacon e pinned db c = Inr (db, c1\<lparr>expires_at := expires_at c1 + unat (beacon_timeout c1)\<rparr>)"
    using h(1) c1(1) check_for_gone_hosts_noop [OF assms(1), of LEFT_MARGIN pinned]
    by (simp add: fire_beacon_def)
  have "set (concat ?groups) = set headers" using beacon_groups_props [of "rev headers"] by simp
  then have keys: "(\<lambda>h. res_key (Resource_from_header e' h)) ` set (concat ?groups) =
      {k. (local_ip db, k) \<in> owners db}"
    using arg_cong [OF h(3), of set] local_files_owned [OF assms(1)] by simp
  have "\<forall>g \<in> set ?groups. length g \<le> 3 \<and> (\<forall>h \<in> set g. length h = RESOURCE_HEADER_SIZE)"
    using beacon_groups_props [of "rev headers"] h(2) by auto
  from deliver_groups [OF assms(4,6) assms(5) [symmetric] assms(7) this, of e' e]
  obtain srv' db' where "foldE (handle_receive e') (map (Received (local_ip db)) (map (beacon_packet e) ?groups))
      (srv, peer_db) = Inr (srv', db')" "receiving srv'"
      "learns (local_ip db) {k. (local_ip db, k) \<in> owners db} peer_db db'"
    unfolding keys by (auto simp: o_def)
  with fire c1(2) show ?thesis by (fastforce simp: accepted_def)
qed

section \<open>Two programs\<close>

text \<open>Datagrams to a running program reach the receiver.\<close>

lemma prog_datagrams:
  assumes "\<not> cli_exited (prog_cli s)" "prog_server s = Some srv" "receiving srv"
    and "foldE (handle_receive e) (map (Received ip) packets) (srv, cli_db (prog_cli s)) = Inr (srv', db')"
  shows "foldE (prog_step e fsize tokens) (map (\<lambda>q. Datagram (Received ip q)) packets) s =
    Inr (s\<lparr>prog_cli := (prog_cli s)\<lparr>cli_db := db'\<rparr>, prog_server := Some srv'\<rparr>)"
  using assms
proof (induction packets arbitrary: s srv)
  case (Cons q packets)
  then obtain srv1 db1 where 1: "handle_receive e (Received ip q) (srv, cli_db (prog_cli s)) = Inr (srv1, db1)"
      "foldE (handle_receive e) (map (Received ip) packets) (srv1, db1) = Inr (srv', db')"
    by (auto simp: bindE_Inr_iff)
  have r: "receiving srv1" using 1(1) by (auto simp: handle_receive_def Let_def bindE_Inr_iff)
  let ?s1 = "s\<lparr>prog_cli := (prog_cli s)\<lparr>cli_db := db1\<rparr>, prog_server := Some srv1\<rparr>"
  have "prog_step e fsize tokens (Datagram (Received ip q)) s = Inr ?s1"
    using Cons.prems(1-3) 1(1) by (simp add: prog_step_def)
  moreover have "foldE (prog_step e fsize tokens) (map (\<lambda>q. Datagram (Received ip q)) packets) ?s1 =
      Inr (?s1\<lparr>prog_cli := (prog_cli ?s1)\<lparr>cli_db := db'\<rparr>, prog_server := Some srv'\<rparr>)"
    by (rule Cons.IH) (use Cons.prems(1) r 1(2) in simp_all)
  ultimately show ?case by simp
qed simp

text \<open>The typed commands \<open>add\<close> and \<open>download\<close>.\<close>

lemma typed_add:
  assumes "prog_ok s" "\<not> cli_exited (prog_cli s)" "tokens line = [''add'', name]" "fsize name = Size n"
  obtains s' where "prog_step e fsize tokens (Typed line) s = Inr s'" "\<not> cli_exited (prog_cli s')"
    "cli_client (prog_cli s') = cli_client (prog_cli s)" "prog_files s' = prog_files s"
    "db_inv (cli_db (prog_cli s'))"
    "abs_db (cli_db (prog_cli s')) =
       spec_add (name, n) (local_ip (cli_db (prog_cli s))) (abs_db (cli_db (prog_cli s)))"
proof -
  let ?cli = "prog_cli s"
  have inv: "db_inv (cli_db ?cli)" using assms(1) by (simp add: prog_ok_def cli_ok_def)
  obtain db where db: "add_file_local (Resource_new name n name) (cli_db ?cli) = Inr db" "db_inv db"
      "abs_db db = spec_add (res_key (Resource_new name n name)) (local_ip (cli_db ?cli)) (abs_db (cli_db ?cli))"
    using add_file_local_correct [OF inv] by blast
  let ?cli' = "(print_text ('' File size is: '' @ decimal (unat n) @ endl) ?cli)\<lparr>cli_db := db\<rparr>"
  have "cmd_add fsize name ?cli = Inr ?cli'" using db(1) assms(4) by (simp add: cmd_add_def Let_def)
  then have "prog_step e fsize tokens (Typed line) s = Inr (s\<lparr>prog_cli := ?cli'\<rparr>)"
    using assms(2,3) execute_command_simps(1) [OF assms(2), of e fsize name]
    by (simp add: prog_step_def cli_line_def)
  then show thesis
    by (rule that) (use assms(2) db in \<open>simp_all add: res_key_def Resource_new_def\<close>)
qed

lemma typed_download:
  assumes "cli_ok (prog_cli s)" "\<not> cli_exited (prog_cli s)" "tokens line = [''download'', name]"
  shows "\<exists>s'. prog_step e fsize tokens (Typed line) s = Inr s' \<and>
    cli_db (prog_cli s') = cli_db (prog_cli s) \<and> \<not> cli_exited (prog_cli s') \<and>
    cli_downloads (prog_cli s') = cli_downloads (prog_cli s) @
      (case find (\<lambda>p. res_name (resOf (cli_db (prog_cli s)) p) = name) (resources (cli_db (prog_cli s))) of
         Some p \<Rightarrow> if invalidated (resOf (cli_db (prog_cli s)) p) then [] else [p]
       | None \<Rightarrow> [])"
proof -
  obtain cli where "cmd_download name (prog_cli s) = Inr cli" "cli_db cli = cli_db (prog_cli s)"
      "cli_exited cli = cli_exited (prog_cli s)"
      "cli_downloads cli = cli_downloads (prog_cli s) @
        (case find (\<lambda>p. res_name (resOf (cli_db (prog_cli s)) p) = name) (resources (cli_db (prog_cli s))) of
           Some p \<Rightarrow> if invalidated (resOf (cli_db (prog_cli s)) p) then [] else [p] | None \<Rightarrow> [])"
    using cmd_download_ok [OF assms(1), of name] by blast
  then show ?thesis
    using assms(2,3) execute_command_simps(3) [OF assms(2), of e fsize name]
    by (simp add: prog_step_def cli_line_def)
qed

text \<open>A file nobody else has by that name is the one found, and its owner is on its list.\<close>

lemma learned_file:
  assumes "learns ip ks db db'" "db_inv db" "(name, n) \<in> ks" "\<forall>m. (name, m) \<in> ks \<longrightarrow> m = n"
    and "name \<notin> fst ` files db"
  obtains p h where "find (\<lambda>p. res_name (resOf db' p) = name) (resources db') = Some p"
    "p \<in> set (resources db')" "res_key (resOf db' p) = (name, n)" "\<not> invalidated (resOf db' p)"
    "h \<in> set (hosts_in_possession (resOf db' p))" "h \<in> set (hosts db')" "host_ip (hostOf db' h) = ip"
proof -
  have l: "db_inv db'" "owners db' = owners db \<union> {ip} \<times> ks" "files db' = files db \<union> ks"
      "revoked_files db' = revoked_files db"
    using assms(1) by (simp_all add: learns_def)
  have "(name, n) \<in> files db'" using l(3) assms(3) by simp
  then obtain p0 where p0: "p0 \<in> set (resources db')" "res_key (resOf db' p0) = (name, n)"
    by (auto simp: files_def)
  then have "\<exists>p \<in> set (resources db'). res_name (resOf db' p) = name" by (auto simp: res_key_def)
  then obtain p where p: "find (\<lambda>p. res_name (resOf db' p) = name) (resources db') = Some p"
    by (metis (mono_tags, lifting) find_None_iff2 option.exhaust)
  note pm = find_Some_mem [OF p]
  have k: "res_key (resOf db' p) \<in> files db'" using pm by (simp add: files_def)
  have nm: "fst (res_key (resOf db' p)) = name" using pm by (simp add: res_key_def)
  have "res_key (resOf db' p) \<notin> files db" using nm assms(5) by (metis image_eqI)
  then have "res_key (resOf db' p) \<in> ks" using k l(3) by blast
  then have key: "res_key (resOf db' p) = (name, n)" using nm assms(4) by (metis prod.collapse)
  have "revoked_files db \<subseteq> files db" by (auto simp: revoked_files_def files_def)
  then have "(name, n) \<notin> revoked_files db" using assms(5) by force
  then have "res_key (resOf db' p) \<notin> revoked_files db'" using l(4) key by simp
  then have live: "\<not> invalidated (resOf db' p)" using pm by (auto simp: revoked_files_def)
  have "(ip, name, n) \<in> owners db'" using l(2) assms(3) by blast
  then obtain h r where h: "h \<in> set (hosts db')" "host_ip (hostOf db' h) = ip"
      "r \<in> set (possesed_resources (hostOf db' h))" "res_key (resOf db' r) = (name, n)"
    unfolding owners_def by auto
  have "r \<in> set (resources db')" by (rule db_inv_possesed [OF l(1) h(1,3)])
  with l(1) pm key h(4) have "r = p" unfolding db_inv_def db_keys_ok_def inj_on_def by metis
  then have "h \<in> set (hosts_in_possession (resOf db' p))"
    using l(1) h(1,3) unfolding db_inv_def db_links_ok_def by blast
  from that [OF p _ key live this h(1,2)] pm show thesis by blast
qed

text \<open>The beacon of one program reaches another; what it learned is found by \<open>download\<close>.\<close>

lemma beacon_reaches:
  fixes A B :: "'ip program"
  assumes "db_inv (cli_db (prog_cli A))" "\<not> cli_exited (prog_cli A)" "cli_client (prog_cli A) = Some c"
    and "client_ok c" "advertisable (cli_db (prog_cli A))"
    and "prog_ok B" "\<not> cli_exited (prog_cli B)" "prog_server B = Some srv" "receiving srv"
    and "local_ip (cli_db (prog_cli A)) = ip" "local_ip (cli_db (prog_cli B)) \<noteq> ip"
  obtains A' c' packets srv' db' where
    "prog_step eA fsizeA tokensA (Beacon pinned) A = Inr A'"
    "cli_client (prog_cli A') = Some c'" "accepted c' = accepted c @ packets"
    "foldE (prog_step eB fsizeB tokensB) (map (\<lambda>q. Datagram (Received ip q)) packets) B =
       Inr (B\<lparr>prog_cli := (prog_cli B)\<lparr>cli_db := db'\<rparr>, prog_server := Some srv'\<rparr>)"
    "learns ip {k. (ip, k) \<in> owners (cli_db (prog_cli A))} (cli_db (prog_cli B)) db'"
proof -
  let ?a = "cli_db (prog_cli A)" and ?b = "cli_db (prog_cli B)"
  have b: "db_inv ?b" "local_ip ?b \<noteq> local_ip ?a" "length (recv_buffer srv) = UDP_SERV_BUFFER_SIZE"
    using assms(6,8,10,11) by (simp_all add: prog_ok_def cli_ok_def)
  obtain c' packets srv' db' where fire: "fire_beacon eA pinned ?a c = Inr (?a, c')"
      "accepted c' = accepted c @ packets"
      "foldE (handle_receive eB) (map (Received ip) packets) (srv, ?b) = Inr (srv', db')"
      "learns ip {k. (ip, k) \<in> owners ?a} ?b db'"
    using beacon_received [OF assms(1,5,4) b(1-3) assms(9), of eA pinned eB] assms(10) by blast
  have "prog_step eA fsizeA tokensA (Beacon pinned) A =
      Inr (A\<lparr>prog_cli := (prog_cli A)\<lparr>cli_db := ?a, cli_client := Some c'\<rparr>\<rparr>)"
    using assms(2,3) fire(1) by (simp add: prog_step_def)
  from that [OF this _ fire(2) prog_datagrams [OF assms(7-9) fire(3)] fire(4)] show thesis by simp
qed

lemma learned_file_downloaded:
  assumes "prog_ok B" "\<not> cli_exited (prog_cli B)" "learns ip ks (cli_db (prog_cli B)) db'"
    and "(name, n) \<in> ks" "\<forall>m. (name, m) \<in> ks \<longrightarrow> m = n" "name \<notin> fst ` files (cli_db (prog_cli B))"
    and "\<forall>k \<in> ks. length (fst k) \<le> RESOURCE_HEADER_SIZE" "tokens line = [''download'', name]"
  obtains B' p h where
    "prog_step e fsize tokens (Typed line) (B\<lparr>prog_cli := (prog_cli B)\<lparr>cli_db := db'\<rparr>, prog_server := sv\<rparr>) = Inr B'"
    "cli_db (prog_cli B') = db'" "cli_downloads (prog_cli B') = cli_downloads (prog_cli B) @ [p]"
    "res_key (resOf db' p) = (name, n)" "h \<in> set (hosts_in_possession (resOf db' p))"
    "host_ip (hostOf db' h) = ip"
    "\<not> is_retarded now (hostOf db' h) \<longrightarrow>
      (\<exists>s0. DownloadService_init now db' p = Inr (Inr s0) \<and> h \<in> w_host ` set (ds_workers s0))"
proof -
  let ?b = "cli_db (prog_cli B)" and ?B = "B\<lparr>prog_cli := (prog_cli B)\<lparr>cli_db := db'\<rparr>, prog_server := sv\<rparr>"
  have b: "db_inv ?b" "cli_ok (prog_cli B)" using assms(1) by (simp_all add: prog_ok_def cli_ok_def)
  obtain p h where p: "find (\<lambda>p. res_name (resOf db' p) = name) (resources db') = Some p"
      "p \<in> set (resources db')" "res_key (resOf db' p) = (name, n)" "\<not> invalidated (resOf db' p)"
      "h \<in> set (hosts_in_possession (resOf db' p))" "host_ip (hostOf db' h) = ip"
    by (rule learned_file [OF assms(3) b(1) assms(4-6)])
  have inv: "db_inv db'" "files db' = files ?b \<union> ks" "set (resources ?b) \<subseteq> set (resources db')"
    using assms(3) by (simp_all add: learns_def)
  have "cli_ok (prog_cli ?B)" using cli_ok_new_db [OF b(2) inv(1,3)] inv(2) assms(7) by auto
  from typed_download [OF this, of tokens line name e fsize] assms(2,8) p(1,4) obtain B' where
    "prog_step e fsize tokens (Typed line) ?B = Inr B'" "cli_db (prog_cli B') = db'"
    "cli_downloads (prog_cli B') = cli_downloads (prog_cli B) @ [p]"
    by auto
  from that [OF this p(3,5,6)] DownloadService_init_runs [OF inv(1) p(2,5)] show thesis by blast
qed

end
