(* ===== verification/Sharing.thy ===== *)
theory Sharing
  imports Discovery
begin

text \<open>
  What the events of a running program never take away: files stay known under their keys and
  downloads stay on the list, so that a download can be stored in whatever state the program
  has reached when it ends; and what storing it does to the program.
\<close>

section \<open>What stays\<close>

definition keeps_files :: "'ip database \<Rightarrow> 'ip database \<Rightarrow> bool" where
  "keeps_files db db' \<longleftrightarrow> set (resources db) \<subseteq> set (resources db') \<and>
     set (hosts db) \<subseteq> set (hosts db') \<and> local_ip db' = local_ip db \<and>
     (\<forall>p \<in> set (resources db). res_key (resOf db' p) = res_key (resOf db p))"

lemma keeps_files_refl [simp]: "keeps_files db db"
  by (simp add: keeps_files_def)

lemma keeps_files_trans: "keeps_files a b \<Longrightarrow> keeps_files b c \<Longrightarrow> keeps_files a c"
  unfolding keeps_files_def by (metis subset_iff)

lemma extends_keeps_files: "db_extends db db' \<Longrightarrow> db_inv db \<Longrightarrow> keeps_files db db'"
  using db_inv_my_host [of db] by (simp add: db_extends_def keeps_files_def local_ip_def)

lemma revoke_keeps_files:
  assumes "revoke_resource res db = Inr db'" "db_inv db"
  shows "keeps_files db db'"
proof -
  have step: "foldE (revoke_step r) hs d = Inr d' \<Longrightarrow> resOf d' = resOf d \<and> hosts d' = hosts d" for r hs d d'
    by (induction hs arbitrary: d) (auto simp: revoke_step_def bindE_Inr_iff)
  have "resources db' = resources db" by (rule revoke_resource_resources [OF assms(1)])
  moreover have "hosts db' = hosts db"
    using assms(1) by (auto simp: revoke_resource_def bindE_Inr_iff Let_def split: option.splits dest!: step)
  moreover have "local_ip db' = local_ip db"
    using revoke_resource_correct [OF assms(2), of res] assms(1) arg_cong [of "abs_db db'" _ reg_local]
    by (auto simp: abs_db_def spec_revoke_def)
  moreover have "res_key (resOf db' p) = res_key (resOf db p)" if "p \<in> set (resources db)" for p
  proof -
    have "res_mem db p \<noteq> None" by (rule db_inv_res [OF assms(2) that])
    moreover have "res_key (resOf (upd_res r (\<lambda>x. x\<lparr>invalidated := True\<rparr>) db) p) = res_key (resOf db p)"
      if "res_mem db p \<noteq> None" for r
      using that by (auto simp: upd_res_def resOf_def res_key_def)
    ultimately show ?thesis
      using assms(1) by (auto simp: revoke_resource_def bindE_Inr_iff Let_def split: option.splits dest!: step)
  qed
  ultimately show ?thesis by (simp add: keeps_files_def)
qed

lemma datagram_keeps_files:
  assumes "handle_datagram e ip buf db = Inr db'" "db_inv db"
  shows "keeps_files db db'"
proof -
  have "(\<exists>rs. update_host ip rs db = Inr db') \<or> (\<exists>res. revoke_resource res db = Inr db') \<or> db' = db"
    using assms(1) unfolding handle_datagram_def Let_def bindE_Inr_iff if_distrib [of "\<lambda>x. x = _"]
    by (metis bindE_Inr_iff Inr_inject)
  then consider (beacon) rs where "update_host ip rs db = Inr db'"
    | (revoked) res where "revoke_resource res db = Inr db'" | (other) "db' = db"
    by blast
  then show ?thesis
  proof cases
    case beacon
    then have "db_extends db db'" using update_host_correct [OF assms(2), of ip rs] by auto
    then show ?thesis by (rule extends_keeps_files [OF _ assms(2)])
  next
    case revoked
    then show ?thesis by (rule revoke_keeps_files [OF _ assms(2)])
  qed simp
qed

text \<open>Databases and downloads over one event.\<close>

definition goes_on :: "'ip CLI \<Rightarrow> 'ip CLI \<Rightarrow> bool" where
  "goes_on s s' \<longleftrightarrow> keeps_files (cli_db s) (cli_db s') \<and> (\<exists>ps. cli_downloads s' = cli_downloads s @ ps)"

lemma goes_on_refl [simp]: "goes_on s s"
  by (simp add: goes_on_def)

lemma goes_on_trans: "goes_on a b \<Longrightarrow> goes_on b c \<Longrightarrow> goes_on a c"
  unfolding goes_on_def using keeps_files_trans by (metis append.assoc)

lemma goes_on_print [simp]: "goes_on s (print_text text s)"
  by (simp add: goes_on_def print_text_def)

lemma cmd_add_goes_on:
  assumes "cmd_add fsize arg s = Inr s'" "db_inv (cli_db s)"
  shows "goes_on s s'"
proof (cases "fsize arg")
  case (Size n)
  obtain db where db: "add_file_local (Resource_new arg n arg) (cli_db s) = Inr db" "db_extends (cli_db s) db"
    using add_file_local_correct [OF assms(2)] by blast
  have "keeps_files (cli_db s) db" by (rule extends_keeps_files [OF db(2) assms(2)])
  with assms(1) Size db(1) show ?thesis by (auto simp: cmd_add_def goes_on_def print_text_def)
qed (use assms(1) in \<open>auto simp: cmd_add_def\<close>)

lemma cmd_revoke_goes_on:
  assumes "cmd_revoke e arg s = Inr s'" "db_inv (cli_db s)"
  shows "goes_on s s'"
  using assms revoke_keeps_files [OF _ assms(2)]
  by (auto simp: cmd_revoke_def module_revoke_file_def bindE_Inr_iff goes_on_def print_text_def
      split: option.splits)

lemma cmd_download_goes_on: "cmd_download arg s = Inr s' \<Longrightarrow> goes_on s s'"
  by (auto simp: cmd_download_def bindE_Inr_iff goes_on_def print_text_def split: option.splits if_splits)

lemma execute_goes_on:
  assumes "execute_command (CLICommands e fsize) name arg s = Inr s'" "db_inv (cli_db s)" "\<not> cli_exited s"
  shows "goes_on s s'"
proof (cases "name \<in> fst ` set command_texts")
  case True
  note ex = execute_command_simps [OF assms(3), of e fsize]
  from True show ?thesis
  proof (cases rule: command_name_cases)
    case 1 with assms ex(1) cmd_add_goes_on show ?thesis by metis
  next
    case 2 with assms ex(2) cmd_revoke_goes_on show ?thesis by metis
  next
    case 3 with assms ex(3) cmd_download_goes_on show ?thesis by metis
  next
    case 4 with assms ex(4) show ?thesis by (auto simp: cmd_global_def bindE_Inr_iff)
  next
    case 5 with assms ex(5) show ?thesis by (auto simp: cmd_help_def)
  next
    case 6 with assms ex(6) show ?thesis by (auto simp: cmd_quit_def goes_on_def)
  qed
next
  case False
  then show ?thesis using execute_none [OF _ assms(3)] assms(1) by (auto simp: command_names)
qed

lemma cli_line_goes_on:
  assumes "cli_line (CLICommands e fsize) tokens line s = Inr s'" "db_inv (cli_db s)"
  shows "goes_on s s'"
  using assms execute_goes_on [OF _ assms(2)] by (auto simp: cli_line_def split: if_splits list.splits)

section \<open>Over a run\<close>

lemma stored_step_goes_on:
  assumes "stored_step p data junk created room s = Inr s'" "db_inv (cli_db (prog_cli s))"
  shows "goes_on (prog_cli s) (prog_cli s')"
proof -
  have "keeps_files (cli_db (prog_cli s)) db" if "add_file_local r (cli_db (prog_cli s)) = Inr db" for r db
    using add_file_local_correct [OF assms(2), of r] that extends_keeps_files [OF _ assms(2)] by auto
  with assms(1) show ?thesis
    by (auto simp: stored_step_def store_file_def Let_def bindE_Inr_iff goes_on_def
        split: if_splits option.splits sum.splits)
qed

lemma datagram_event_goes_on:
  assumes "handle_receive e ev (srv, db) = Inr (srv', db')" "db_inv db"
  shows "keeps_files db db'"
proof (cases ev)
  case (Received ip bytes)
  with assms datagram_keeps_files [OF _ assms(2)] show ?thesis
    by (auto simp: handle_receive_eq [OF assms(2)] Let_def bindE_Inr_iff split: if_splits)
qed (use assms(1) in \<open>simp add: handle_receive_def\<close>)

lemma event_goes_on:
  assumes "prog_event_step e fsize tokens ev s = Inr s'" "db_inv (cli_db (prog_cli s))"
  shows "goes_on (prog_cli s) (prog_cli s')"
proof (cases ev)
  case (Typed line)
  with assms cli_line_goes_on [OF _ assms(2), of e fsize tokens line] show ?thesis
    by (auto simp: bindE_Inr_iff)
next
  case (Datagram ev')
  with assms datagram_event_goes_on [OF _ assms(2)] show ?thesis
    by (auto simp: bindE_Inr_iff goes_on_def split: option.splits if_splits)
next
  case (Beacon pinned)
  with assms fire_beacon_cases [OF _ assms(2)] show ?thesis
    by (fastforce simp: bindE_Inr_iff goes_on_def split: option.splits)
next
  case (Download_Stored p data junk created room)
  with assms stored_step_goes_on show ?thesis by fastforce
next
  case (Request i ev')
  with assms show ?thesis by (auto simp: request_step_def bindE_Inr_iff split: option.splits if_splits)
next
  case (Reply_Sent i error)
  with assms show ?thesis by (auto simp: reply_step_def bindE_Inr_iff split: option.splits if_splits)
qed (use assms in \<open>auto simp: bindE_Inr_iff goes_on_def run_server_def split: option.splits if_splits\<close>)

lemma prog_run_goes_on:
  assumes "prog_run e fsize tokens s0 s" "prog_ok s0"
  shows "goes_on (prog_cli s0) (prog_cli s)"
  using assms
proof (induction rule: prog_run.induct)
  case (event s ev s')
  have "db_inv (cli_db (prog_cli s))"
    using prog_run_ok [OF event.hyps(1) event.prems] by (simp add: prog_ok_def cli_ok_def)
  then have "goes_on (prog_cli s) (prog_cli s')"
    using event.hyps(3) event_goes_on [of e fsize tokens ev s s'] by (auto simp: prog_step_def split: if_splits)
  with event.IH [OF event.prems] show ?case by (rule goes_on_trans)
qed simp

section \<open>The end of a download\<close>

text \<open>The buffer of a download that counts as completed, and storing it.\<close>

lemma completed_contents:
  assumes "db_inv db" "p \<in> set (resources db)" "r = resOf db p"
    and "DownloadService_init now db p = Inr (Inr s0)"
    and "run_under (\<lambda>e s. no_timeout e s \<and> served en (res_name r) f e s) s0 s"
    and "header_ok r" "length f = unat (res_size r)" "unat (res_size r) \<le> 65535 * SEGMENT_SIZE"
    and "is_completed (ds_cr s)"
  shows "file_contents (ds_cr s) = Inr (map Some f)" "cr_resource (ds_cr s) = r" "cr_ok (ds_cr s)"
proof -
  obtain ps where s0: "s0 = init_download r (hostOf db) (map DownloadWorker_new ps)"
    using DownloadService_init_starts [OF assms(1,2,4)] assms(3) by blast
  have small: "unat (res_size r) < 2 ^ 26" using assms(8) by simp
  have "dl_inv r f s"
    by (rule run_under_no_timeout_inv [OF served_run_honest [OF assms(5) [unfolded s0] assms(6,7) small]])
  then have cr: "segments_ok f (ds_cr s)" "cr_resource (ds_cr s) = r" "cr_ok (ds_cr s)"
    by (simp_all add: dl_inv_def segments_ok_def)
  show "file_contents (ds_cr s) = Inr (map Some f)"
    by (rule completed_file [OF cr(1) assms(9)]) (use assms(7,8) cr(2) in simp_all)
  show "cr_resource (ds_cr s) = r" "cr_ok (ds_cr s)" by (rule cr(2,3))+
qed

lemma add_file_local_owns:
  assumes "db_inv db" "add_file_local r db = Inr db'"
  shows "db_inv db'" "(local_ip db', res_key r) \<in> owners db'" "has_file db' r = Inr True"
proof -
  have db': "db_inv db'" "abs_db db' = spec_add (res_key r) (local_ip db) (abs_db db)"
    using add_file_local_correct [OF assms(1), of r] assms(2) by auto
  show "db_inv db'" by (rule db'(1))
  show own: "(local_ip db', res_key r) \<in> owners db'"
    using arg_cong [OF db'(2), of reg_local] arg_cong [OF db'(2), of reg_owners]
    by (simp add: abs_db_def spec_add_def)
  show "has_file db' r = Inr True" using own has_file_correct [OF db'(1), of r] by simp
qed

lemma store_file_shares:
  assumes "file_contents cr = Inr (map Some f)" "cr_resource cr = r" "db_inv db" "length f \<le> room"
    and "res_name r \<notin> read_locked fm" "res_name r \<notin> write_locked fm"
  shows "\<exists>db'. store_file junk True room cr (db, fm) =
      Some (Inr (db', fm\<lparr>fm_disk := (fm_disk fm)(res_name r \<mapsto> f)\<rparr>)) \<and> db_inv db' \<and>
    (local_ip db', res_key r) \<in> owners db' \<and> has_file db' r = Inr True"
proof -
  have st: "store_resource junk True room cr fm = Some (Inr (fm\<lparr>fm_disk := (fm_disk fm)(res_name r \<mapsto> f)\<rparr>))"
    by (rule store_resource_stores [OF assms(1,4) _ assms(5,6)]) (simp add: assms(2))
  obtain db' where db': "add_file_local r db = Inr db'"
    using add_file_local_correct [OF assms(3)] by blast
  with st add_file_local_owns [OF assms(3) db'] assms(2) show ?thesis by (simp add: store_file_def)
qed

text \<open>In the program: the resource may have been changed since, but not its key.\<close>

lemma stored_step_shares:
  assumes "prog_ok s" "p \<in> set (cli_downloads (prog_cli s))" "res_key (resOf (cli_db (prog_cli s)) p) = (name, n)"
    and "cr_ok cr" "res_key (cr_resource cr) = (name, n)" "file_contents cr = Inr (map Some f)" "length f \<le> room"
    and "name \<notin> read_locked (prog_files s)" "name \<notin> write_locked (prog_files s)"
  shows "\<exists>s'. stored_step p (cr_data cr) junk True room s = Inr s' \<and>
    prog_files s' = (prog_files s)\<lparr>fm_disk := (fm_disk (prog_files s))(name \<mapsto> f)\<rparr> \<and>
    (local_ip (cli_db (prog_cli s')), name, n) \<in> owners (cli_db (prog_cli s'))"
proof -
  let ?db = "cli_db (prog_cli s)"
  let ?r = "resOf ?db p"
  let ?new = "CompleteResource_new ?r"
  let ?cr = "?new\<lparr>cr_data := take (length (cr_data ?new)) (cr_data cr @ cr_data ?new)\<rparr>"
  have ok: "db_inv ?db" "p \<in> set (resources ?db)"
    using assms(1,2) by (auto simp: prog_ok_def cli_ok_def)
  have r: "deref_res ?db p = Inr ?r" by (rule deref_res_ok [OF db_inv_res [OF ok]])
  have size: "res_size (cr_resource cr) = res_size ?r" "res_name ?r = name"
    using assms(3,5) by (simp_all add: res_key_def)
  have "length (cr_data ?new) = length (cr_data cr)"
    using assms(4) size(1)
    by (simp add: cr_ok_def seg_count_def CompleteResource_new_def Let_def calc_segments_count_def)
  then have data: "cr_data ?cr = cr_data cr" by simp
  have key: "cr_resource ?cr = ?r" by (simp add: CompleteResource_new_def Let_def)
  have fc: "file_contents ?cr = Inr (map Some f)"
    using assms(6) size(1) unfolding file_contents_def data key by simp
  obtain db' where "store_file junk True room ?cr (?db, prog_files s) =
      Some (Inr (db', (prog_files s)\<lparr>fm_disk := (fm_disk (prog_files s))(name \<mapsto> f)\<rparr>))"
      "(local_ip db', res_key ?r) \<in> owners db'"
    using store_file_shares [OF fc key ok(1) assms(7), of "prog_files s" junk] assms(8,9) size(2) by auto
  with assms(2,3) r show ?thesis by (simp add: stored_step_def Let_def)
qed

text \<open>A download that ran by itself, on the database as it was when it started, and was stored
  after the program had gone on.\<close>

lemma download_then_stored:
  fixes s1 :: "'ip program"
  assumes "prog_ok s1" "p \<in> set (cli_downloads (prog_cli s1))" "r = resOf (cli_db (prog_cli s1)) p"
    and "DownloadService_init now (cli_db (prog_cli s1)) p = Inr (Inr d0)"
    and "run_under (\<lambda>ev d. no_timeout ev d \<and> served e (res_name r) f ev d) d0 d" "is_completed (ds_cr d)"
    and "header_ok r" "length f = unat (res_size r)" "unat (res_size r) \<le> 65535 * SEGMENT_SIZE"
    and "prog_run e fsize tokens s1 s2" "\<not> cli_exited (prog_cli s2)"
    and "res_name r \<notin> read_locked (prog_files s2)" "res_name r \<notin> write_locked (prog_files s2)"
    and "length f \<le> room"
  shows "\<exists>s3. prog_step e fsize tokens (Download_Stored p (cr_data (ds_cr d)) junk True room) s2 = Inr s3 \<and>
    fm_disk (prog_files s3) (res_name r) = Some f \<and>
    (local_ip (cli_db (prog_cli s3)), res_key r) \<in> owners (cli_db (prog_cli s3)) \<and>
    (\<forall>w. worker_ready w \<longrightarrow> serves (res_name r) f w (prog_files s3))"
proof -
  let ?db = "cli_db (prog_cli s1)"
  have db: "db_inv ?db" "p \<in> set (resources ?db)"
    using assms(1,2) by (auto simp: prog_ok_def cli_ok_def)
  note cr = completed_contents [OF db assms(3-5,7-9,6)]
  have "goes_on (prog_cli s1) (prog_cli s2)" by (rule prog_run_goes_on [OF assms(10,1)])
  then have s2: "p \<in> set (cli_downloads (prog_cli s2))"
      "res_key (resOf (cli_db (prog_cli s2)) p) = (res_name r, res_size r)"
    using assms(2,3) db(2) by (auto simp: goes_on_def keeps_files_def res_key_def)
  have "res_key (cr_resource (ds_cr d)) = (res_name r, res_size r)" using cr(2) by (simp add: res_key_def)
  from stored_step_shares [OF prog_run_ok [OF assms(10,1)] s2 cr(3) this cr(1) assms(14,12,13), of junk]
  obtain s3 where s3: "stored_step p (cr_data (ds_cr d)) junk True room s2 = Inr s3"
      "prog_files s3 = (prog_files s2)\<lparr>fm_disk := (fm_disk (prog_files s2))(res_name r \<mapsto> f)\<rparr>"
      "(local_ip (cli_db (prog_cli s3)), res_name r, res_size r) \<in> owners (cli_db (prog_cli s3))"
    by blast
  have "serves (res_name r) f w (prog_files s3)" if "worker_ready w" for w
    using that assms(12,13) by (auto simp: serves_def worker_ready_def s3(2) read_locked_def write_locked_def)
  with s3 assms(11) show ?thesis by (simp add: prog_step_def res_key_def)
qed

end
