(* ===== verification/Download_Anomalies.thy ===== *)
theory Download_Anomalies
  imports Download_Invariant
begin

text \<open>
  What a download does outside the guarantees of \<open>Download_Invariant\<close>: the schedules on
  which charging timeouts makes the counter exceed the completed segments, on which a worker
  without a segment is charged, and on which a worker misses the notification of the end.
\<close>

section \<open>What a timeout breaks\<close>

lemmas schedule_evals = small_evals check_worker_step_def check_timeout_def unset_busy_def
  notify_one_def notify_all_def wake_def all_workers_unavailable_def is_unavailable_def
  is_retarded_def increase_timeout_counter_def close_worker_def

text \<open>
  Two workers take the first two segments, both are slow and lose them; the second worker
  then completes both, the first one too, and the counter reaches three.
\<close>

definition slow_resource :: Resource where
  "slow_resource = Resource_new ''slow'' 3072 default_path"

definition slow_file :: "Uint8 list" where
  "slow_file = replicate 3072 7"

definition slow_schedule :: "dl_event list" where
  "slow_schedule =
     [Connected 0, Connected 1, Loop_Test 0, Loop_Test 1, Get_Check 0, Get_Check 1,
      Get_Scan 0, Own 0, Get_Scan 1, Own 1,
      Tick 0, Check_Worker 0 0, Check_Worker 0 0, Check_Worker 0 0,
      Tick 0, Check_Worker 0 0, Check_Worker 0 0, Check_Worker 0 0,
      Receive 1 (file_block slow_file 1), Set_Segment 1,
      Loop_Test 1, Get_Check 1, Get_Scan 1, Own 1,
      Receive 0 (file_block slow_file 0), Set_Segment 0,
      Receive 1 (file_block slow_file 0), Set_Segment 1, Tick 0]"


text \<open>The controlling thread charges a worker that is still connecting: 600 ms after
  the start its segment is released, and since it has none yet, the bitset is indexed with
  the reserved number 65535, outside its bounds, whatever the size of the file.\<close>

lemma slow_connect_faults:
  assumes "0 < seg_count (CompleteResource_new r)" "\<not> is_retarded t (hs p)"
  shows "\<exists>s. run_events (\<lambda>e s. honest f e s) [Tick t, Check_Worker t 0, Check_Worker t 0, Tick t]
      (init_download r hs (map DownloadWorker_new [p])) = Some s \<and>
    fire (Check_Worker t 0) s = Some (Inl OutOfBounds)"
proof -
  have "calc_segments_count r \<noteq> 0" using assms(1) by (auto simp: seg_count_def)
  then have "\<not> is_completed (CompleteResource_new r)" by (simp add: is_completed_def)
  then show ?thesis
    using assms(2) unset_busy_no_segment [OF CompleteResource_new_ok, of r]
    by (simp add: init_download_def tick_step_def all_workers_unavailable_def is_unavailable_def
        check_worker_step_def check_timeout_def DownloadWorker_new_def)
qed

section \<open>A lost wake-up\<close>

text \<open>
  Between the test \<open>is_completed\<close> and the second critical section of \<open>get_segment\<close> the
  last segment can be completed; the notification then finds nobody waiting.
\<close>

definition stuck :: "nat \<Rightarrow> 'ip dsys \<Rightarrow> bool" where
  "stuck i s \<longleftrightarrow> at_pc s i Waiting \<and> cr_ok (ds_cr s) \<and> list_all id (completed_segments (ds_cr s)) \<and>
     is_completed (ds_cr s) \<and> (\<forall>j. ds_ctl s \<noteq> CtlCheck j) \<and>
     (\<forall>w \<in> set (ds_workers s). held (w_pc w) = None)"

lemma stuck_upd:
  assumes "stuck i s" "held (w_pc (f (ds_workers s ! j))) = None"
    and "j = i \<Longrightarrow> w_pc (f (ds_workers s ! i)) = Waiting"
  shows "stuck i (upd_worker j f s)"
proof -
  have "\<forall>w \<in> set ((ds_workers s)[j := f (ds_workers s ! j)]). held (w_pc w) = None"
    using assms(1,2) set_update_subset_insert [of "ds_workers s" j "f (ds_workers s ! j)"]
    by (auto simp: stuck_def)
  with assms(1,3) show ?thesis
    by (cases "j = i") (auto simp: stuck_def upd_worker_def at_pc_def)
qed

lemma stuck_set_pc:
  "stuck i s \<Longrightarrow> at_pc s j q \<Longrightarrow> q \<noteq> Waiting \<Longrightarrow> held p = None \<Longrightarrow> stuck i (set_pc j p s)"
  unfolding set_pc_def by (rule stuck_upd) (auto simp: stuck_def at_pc_def)

lemma stuck_holds_nothing:
  "stuck i s \<Longrightarrow> j < length (ds_workers s) \<Longrightarrow> held (w_pc (ds_workers s ! j)) = None"
  by (auto simp: stuck_def)

lemma stuck_scan:
  assumes "stuck i s" "at_pc s j GetScan"
  shows "scan_step j s = Inr (set_pc j Waiting s)"
proof -
  have "cr_ok (ds_cr s)" using assms(1) by (simp add: stuck_def)
  then show ?thesis
  proof (cases rule: get_segment_scan_cases)
    case (segment n)
    then have "completed_segments (ds_cr s) ! n"
      using assms(1) by (simp add: stuck_def cr_ok_def list_all_length)
    with segment show ?thesis by simp
  next
    case wait
    then show ?thesis by (simp add: scan_step_def)
  qed
qed

lemma stuck_fire:
  assumes "stuck i s" "fire e s = Some (Inr s')" "e \<noteq> Spurious i"
  shows "stuck i s'"
proof -
  have waiting: "at_pc s i Waiting" using assms(1) by (simp add: stuck_def)
  show ?thesis
  proof (cases e)
    case (Get_Scan j)
    then show ?thesis using assms stuck_scan [OF assms(1)] stuck_set_pc [OF assms(1)]
      by (auto split: if_splits)
  next
    case (Tick now)
    then have "ds_cr s' = ds_cr s" "ds_workers s' = ds_workers s" "ds_ctl s' = CtlStored"
      using assms(1,2) by (auto simp: stuck_def tick_step_def bindE_Inr_iff split: if_splits)
    with assms(1) show ?thesis by (simp add: stuck_def at_pc_def)
  next
    case (Check_Worker now k)
    with assms(1,2) show ?thesis by (auto simp: stuck_def split: ctl_pc.splits)
  next
    case (Terminate j)
    then have "at_pc s j Failing" "s' = upd_worker j (\<lambda>w. w\<lparr>w_closed := True, w_pc := Failed\<rparr>) s"
      using assms(2) by (auto split: if_splits)
    with waiting show ?thesis by (auto intro!: stuck_upd [OF assms(1)] simp: at_pc_def)
  next
    case (Close j)
    then have "j < length (ds_workers s)" "s' = upd_worker j close_worker s"
      using assms(2) by (auto split: if_splits)
    with waiting stuck_holds_nothing [OF assms(1)] show ?thesis
      by (auto intro!: stuck_upd [OF assms(1)] simp: close_worker_def at_pc_def)
  next
    case (Spurious j)
    with assms(3) have "j \<noteq> i" by simp
    with Spurious assms(2) show ?thesis
      by (auto intro!: stuck_upd [OF assms(1)] simp: set_pc_def split: if_splits)
  qed (use assms stuck_set_pc [OF assms(1)] stuck_holds_nothing [OF assms(1)] in
    \<open>fastforce split: if_splits thread_pc.splits\<close>)+
qed


text \<open>The second worker tests for completion just before the first completes the segment.\<close>

definition lost_wakeup :: "dl_event list" where
  "lost_wakeup =
     [Connected 0, Connected 1, Loop_Test 0, Loop_Test 1, Get_Check 0, Get_Check 1,
      Get_Scan 0, Own 0, Receive 0 (file_block small_file 0), Set_Segment 0, Get_Scan 1,
      Tick 0, Close 0, Close 1]"

lemma lost_wakeup_stuck:
  "\<exists>s. run_events (\<lambda>e s. no_timeout e s \<and> honest small_file e s) lost_wakeup
      (init_download small_resource (\<lambda>_. Host_new 0 (0 :: nat)) (map DownloadWorker_new [0, 1])) = Some s \<and>
    stuck 1 s \<and> ds_ctl s = CtlStored"
proof -
  have n: "calc_segments_count small_resource = 1" "res_size small_resource = 5"
    by (simp_all add: small_resource_def calc_segments_count_def Resource_new_def)
  show ?thesis
    by (simp add: lost_wakeup_def small_file_def init_download_def schedule_evals n stuck_def
        cr_ok_def seg_count_def)
qed


end
