(* ===== verification/Download_Types.thy ===== *)
theory Download_Types
  imports Download_Anomalies
begin

text \<open>
  What holds in every download whatsoever: with timeouts, wrong replies and spurious wake-ups.
  The sizes of the bitsets and of the buffer never change, a thread only ever works on a
  segment of the file, and the few steps that can fault are known.
\<close>

section \<open>Well-typed states\<close>

definition worker_typed :: "nat \<Rightarrow> DownloadWorker \<Rightarrow> bool" where
  "worker_typed k w \<longleftrightarrow> (\<forall>n. held (w_pc w) = Some n \<longrightarrow> unat n < k) \<and>
     (\<forall>n. w_pc w = Downloading n \<or> w_pc w = Storing n \<longrightarrow> owned_segment_id w = n) \<and>
     (owned_segment_id w = NO_SEGMENT_ID \<or> unat (owned_segment_id w) < k)"

definition dl_typed :: "Resource \<Rightarrow> hptr list \<Rightarrow> 'ip dsys \<Rightarrow> bool" where
  "dl_typed r ps s \<longleftrightarrow> cr_resource (ds_cr s) = r \<and> cr_ok (ds_cr s) \<and>
     map w_host (ds_workers s) = ps \<and>
     (\<forall>w \<in> set (ds_workers s). worker_typed (unat (calc_segments_count r)) w) \<and>
     (\<forall>c. ds_stored s = Some c \<longrightarrow> length c = unat (res_size r))"

text \<open>The steps that can fault: the two of \<open>may_fault\<close>, and charging a worker that has
  never had a segment.\<close>

definition fault_prone :: "dl_event \<Rightarrow> 'ip dsys \<Rightarrow> bool" where
  "fault_prone e s \<longleftrightarrow> may_fault e s \<or>
     (case e of
        Check_Worker now k \<Rightarrow>
          (case ds_ctl s of
             CtlCheck j \<Rightarrow> j < length (ds_workers s) \<and> w_timeouted (ds_workers s ! j) \<and>
               owned_segment_id (ds_workers s ! j) = NO_SEGMENT_ID
           | _ \<Rightarrow> False)
      | _ \<Rightarrow> False)"

lemma dl_typed_start: "dl_typed r ps (init_download r hs (map DownloadWorker_new ps))"
proof -
  have "map w_host (map DownloadWorker_new ps) = ps"
    by (induction ps) (simp_all add: DownloadWorker_new_def)
  then show ?thesis
    using CompleteResource_new_ok [of r]
    by (auto simp: dl_typed_def init_download_def worker_typed_def DownloadWorker_new_def
        CompleteResource_new_def Let_def)
qed

section \<open>Preservation\<close>

lemma typed_count:
  "dl_typed r ps s \<Longrightarrow> unat (calc_segments_count r) = seg_count (ds_cr s)"
  by (auto simp: dl_typed_def seg_count_def)

lemma typed_worker:
  "dl_typed r ps s \<Longrightarrow> i < length (ds_workers s) \<Longrightarrow> worker_typed (seg_count (ds_cr s)) (ds_workers s ! i)"
  by (auto simp: dl_typed_def seg_count_def)

lemma typed_workers:
  assumes "dl_typed r ps s" "cr_ok cr" "cr_resource cr = cr_resource (ds_cr s)"
    and "list_all2 (\<lambda>w w'. w_host w' = w_host w \<and>
        (worker_typed (seg_count (ds_cr s)) w \<longrightarrow> worker_typed (seg_count (ds_cr s)) w')) (ds_workers s) ws"
  shows "dl_typed r ps (s\<lparr>ds_cr := cr, ds_workers := ws\<rparr>)"
proof -
  have "map w_host ws = map w_host (ds_workers s)"
    using assms(4) by (auto intro!: nth_equalityI simp: list_all2_conv_all_nth)
  moreover have "\<forall>w \<in> set ws. worker_typed (seg_count (ds_cr s)) w"
    using typed_worker [OF assms(1)] assms(4) by (auto simp: list_all2_conv_all_nth in_set_conv_nth)
  ultimately show ?thesis using assms(1-3) by (simp add: dl_typed_def seg_count_def)
qed

lemma list_all2_update_right:
  assumes "\<And>x. P x x" "i < length xs \<Longrightarrow> P (xs ! i) y"
  shows "list_all2 P xs (xs[i := y])"
  using assms by (cases "i < length xs") (auto simp: list_all2_conv_all_nth nth_list_update list_update_beyond)

lemma typed_upd:
  assumes "dl_typed r ps s" "cr_ok cr" "cr_resource cr = cr_resource (ds_cr s)"
    and "i < length (ds_workers s) \<Longrightarrow> w_host (f (ds_workers s ! i)) = w_host (ds_workers s ! i) \<and>
      worker_typed (seg_count (ds_cr s)) (f (ds_workers s ! i))"
  shows "dl_typed r ps (upd_worker i f (s\<lparr>ds_cr := cr\<rparr>))"
proof -
  have "dl_typed r ps (s\<lparr>ds_cr := cr, ds_workers := (ds_workers s)[i := f (ds_workers s ! i)]\<rparr>)"
    by (rule typed_workers [OF assms(1-3)])
      (rule list_all2_update_right, use assms(4) in auto)
  then show ?thesis by (simp add: upd_worker_def)
qed

lemma typed_set_pc:
  assumes "dl_typed r ps s" "cr_ok cr" "cr_resource cr = cr_resource (ds_cr s)"
    and "held p = None \<or> (\<exists>n. p = Assigned n \<and> unat n < seg_count (ds_cr s))"
  shows "dl_typed r ps (set_pc i p (s\<lparr>ds_cr := cr\<rparr>))"
  unfolding set_pc_def
  by (rule typed_upd [OF assms(1-3)])
    (use typed_worker [OF assms(1), of i] assms(4) in \<open>auto simp: worker_typed_def\<close>)

lemma typed_pc:
  assumes "dl_typed r ps s" "held p = None"
  shows "dl_typed r ps (set_pc i p s)"
  using typed_set_pc [OF assms(1), of "ds_cr s" p i] assms by (simp add: dl_typed_def)

lemma typed_woken:
  assumes "dl_typed r ps s" "list_all2 woken (ds_workers s) ws" "cr_ok cr"
    "cr_resource cr = cr_resource (ds_cr s)"
  shows "dl_typed r ps (s\<lparr>ds_cr := cr, ds_workers := ws\<rparr>)"
  by (rule typed_workers [OF assms(1,3,4)], rule list_all2_mono [OF assms(2)])
    (auto simp: woken_def worker_typed_def)

lemma typed_scan:
  assumes "dl_typed r ps s"
  shows "\<exists>s'. scan_step i s = Inr s' \<and> dl_typed r ps s'"
proof -
  have cr: "cr_ok (ds_cr s)" using assms by (simp add: dl_typed_def)
  from cr show ?thesis
  proof (cases rule: get_segment_scan_cases)
    case (segment n)
    let ?cr = "(ds_cr s)\<lparr>busy_segments := (busy_segments (ds_cr s))[n := True]\<rparr>"
    have u: "unat (word_of_nat n :: SegmentId) = n" by (rule unat_seg_id [OF segment(1)])
    then have "(word_of_nat n :: SegmentId) \<noteq> NO_SEGMENT_ID"
      using seg_count_bound [of "ds_cr s"] segment(1) by (metis leD unat_NO_SEGMENT_ID)
    moreover have "dl_typed r ps (set_pc i (Assigned (word_of_nat n)) (s\<lparr>ds_cr := ?cr\<rparr>))"
      by (rule typed_set_pc [OF assms])
        (use cr segment(1) u in \<open>simp_all add: cr_ok_def seg_count_def\<close>)
    ultimately show ?thesis using segment by (simp add: scan_step_def)
  next
    case wait
    then show ?thesis using typed_pc [OF assms, of Waiting i] by (simp add: scan_step_def)
  qed
qed

lemma typed_receive:
  assumes "dl_typed r ps s" "i < length (ds_workers s)" "w_pc (ds_workers s ! i) = Downloading n"
    "length bs = SEGMENT_SIZE"
  shows "\<exists>s'. receive_step i n bs s = Inr s' \<and> dl_typed r ps s'"
proof -
  note w = typed_worker [OF assms(1,2)]
  then have n: "unat n < seg_count (ds_cr s)" using assms(3) by (simp add: worker_typed_def)
  have "cr_ok (ds_cr s)" using assms(1) by (simp add: dl_typed_def)
  from write_block [OF this n, of bs] assms(4) obtain cr where cr:
    "write_data (segment_at n) bs (ds_cr s) = Inr cr" "cr_ok cr" "cr_resource cr = cr_resource (ds_cr s)"
    by auto
  have "dl_typed r ps (upd_worker i (\<lambda>w. w\<lparr>w_timeouted := False, w_pc := Storing n\<rparr>) (s\<lparr>ds_cr := cr\<rparr>))"
    by (rule typed_upd [OF assms(1) cr(2,3)]) (use w assms(3) in \<open>auto simp: worker_typed_def\<close>)
  with cr(1) show ?thesis by (simp add: receive_step_def)
qed

lemma typed_unset_busy:
  assumes "cr_ok cr" "unat n < seg_count cr"
  shows "\<exists>cr'. unset_busy n cr = Inr cr' \<and> cr_ok cr' \<and> cr_resource cr' = cr_resource cr"
  using unset_busy_ok [OF assms] assms(1) by (simp add: cr_ok_def seg_count_def)

lemma typed_receive_failed:
  assumes "dl_typed r ps s" "i < length (ds_workers s)" "w_pc (ds_workers s ! i) = Downloading n"
    "length part \<le> SEGMENT_SIZE" "receive_failed_step i n part k s = Some x"
  shows "if 28 < unat n then x = Inl OutOfBounds else \<exists>s'. x = Inr s' \<and> dl_typed r ps s'"
proof -
  have n: "unat n < seg_count (ds_cr s)" "owned_segment_id (ds_workers s ! i) = n"
    using typed_worker [OF assms(1,2)] assms(3) by (simp_all add: worker_typed_def)
  have "cr_ok (ds_cr s)" using assms(1) by (simp add: dl_typed_def)
  from write_block [OF this n(1) assms(4)] obtain cr1 where cr1:
    "write_data (segment_at n) part (ds_cr s) = Inr cr1" "cr_ok cr1"
    "cr_resource cr1 = cr_resource (ds_cr s)" "seg_count cr1 = seg_count (ds_cr s)"
    by blast
  then obtain cr where cr: "unset_busy n cr1 = Inr cr" "cr_ok cr" "cr_resource cr = cr_resource (ds_cr s)"
    using typed_unset_busy [OF cr1(2), of n] n(1) by auto
  show ?thesis
  proof (cases "28 < unat n")
    case False
    with assms(5) cr1(1) cr(1) n(2) obtain ws where ws: "notify_one k (ds_workers s) = Some ws"
        "x = Inr (set_pc i Failing (s\<lparr>ds_cr := cr, ds_workers := ws\<rparr>))"
      by (auto simp: receive_failed_step_def failure_message_cases)
    have "dl_typed r ps (set_pc i Failing (s\<lparr>ds_cr := cr, ds_workers := ws\<rparr>))"
      by (rule typed_pc [OF typed_woken [OF assms(1) notify_one_woken [OF ws(1)] cr(2,3)]]) simp
    with ws(2) False show ?thesis by simp
  qed (use assms(5) cr1(1) in \<open>simp add: receive_failed_step_def failure_message_cases\<close>)
qed

lemma typed_set_segment:
  assumes "dl_typed r ps s" "i < length (ds_workers s)" "w_pc (ds_workers s ! i) = Storing n"
  shows "\<exists>s'. set_segment_step i n s = Inr s' \<and> dl_typed r ps s'"
proof -
  have n: "unat n < seg_count (ds_cr s)"
    using typed_worker [OF assms(1,2)] assms(3) by (simp add: worker_typed_def)
  have cr: "cr_ok (ds_cr s)" using assms(1) by (simp add: dl_typed_def)
  from set_segment_ok [OF cr n] obtain all cr' where cr':
    "set_segment n (ds_cr s) = Inr (all, cr')" "cr_ok cr'" "cr_resource cr' = cr_resource (ds_cr s)"
    using cr by (simp add: cr_ok_def seg_count_def)
  define ws where "ws = (if all then notify_all (ds_workers s) else ds_workers s)"
  have "list_all2 woken (ds_workers s) ws"
    using notify_all_woken by (simp add: ws_def list.rel_refl woken_refl)
  from typed_pc [OF typed_woken [OF assms(1) this cr'(2,3)], of LoopHead i] cr'(1)
  show ?thesis by (simp add: set_segment_step_def ws_def)
qed

lemma typed_tick:
  assumes "dl_typed r ps s"
  shows "if may_fault (Tick now) s then tick_step now s = Inl OutOfBounds
    else \<exists>s'. tick_step now s = Inr s' \<and> dl_typed r ps s'"
proof -
  have d: "length (cr_data (ds_cr s)) = seg_count (ds_cr s) * SEGMENT_SIZE" "cr_resource (ds_cr s) = r"
    using assms by (simp_all add: dl_typed_def cr_ok_def)
  show ?thesis
  proof (cases "is_completed (ds_cr s)")
    case True
    show ?thesis
    proof (cases "may_fault (Tick now) s")
      case False
      with True d have "file_contents (ds_cr s) = Inr (take (unat (res_size r)) (cr_data (ds_cr s)))"
        by (simp add: may_fault_def file_contents_def mem_range_def)
      moreover have "length (take (unat (res_size r)) (cr_data (ds_cr s))) = unat (res_size r)"
        using False True d by (simp add: may_fault_def)
      ultimately show ?thesis
        using False True assms by (simp add: tick_step_def dl_typed_def)
    qed (use True d in \<open>simp add: tick_step_def may_fault_def file_contents_def mem_range_def\<close>)
  next
    case False
    with assms show ?thesis by (simp add: tick_step_def dl_typed_def may_fault_def)
  qed
qed

lemma typed_check_worker:
  assumes "dl_typed r ps s" "ds_ctl s = CtlCheck j" "check_worker_step now k j s = Some x"
  shows "if fault_prone (Check_Worker now k) s then x = Inl OutOfBounds
    else \<exists>s'. x = Inr s' \<and> dl_typed r ps s'"
proof (cases "j < length (ds_workers s)")
  case True
  let ?w = "ds_workers s ! j" and ?ws = "ds_workers s"
  let ?w' = "?w\<lparr>w_timeouted := True\<rparr>"
  have cr: "cr_ok (ds_cr s)" using assms(1) by (simp add: dl_typed_def)
  note w = typed_worker [OF assms(1) True]
  have mark: "dl_typed r ps (s\<lparr>ds_cr := cr, ds_workers := ?ws[j := ?w']\<rparr>)"
    if "cr_ok cr" "cr_resource cr = cr_resource (ds_cr s)" for cr
    using typed_upd [OF assms(1) that, of j "\<lambda>w. w\<lparr>w_timeouted := True\<rparr>"] w
    by (simp add: worker_typed_def upd_worker_def)
  show ?thesis
  proof (cases "w_timeouted ?w")
    case charged: True
    show ?thesis
    proof (cases "owned_segment_id ?w = NO_SEGMENT_ID")
      case no_segment: True
      with True charged assms(2,3) unset_busy_no_segment [OF cr] show ?thesis
        by (simp add: check_worker_step_def check_timeout_def fault_prone_def)
    next
      case False
      then have "unat (owned_segment_id ?w) < seg_count (ds_cr s)" using w by (simp add: worker_typed_def)
      from typed_unset_busy [OF cr this] obtain cr' where cr':
        "unset_busy (owned_segment_id ?w) (ds_cr s) = Inr cr'" "cr_ok cr'" "cr_resource cr' = cr_resource (ds_cr s)"
        by blast
      with True charged assms(3) obtain hs ws where ws: "notify_one k (?ws[j := ?w']) = Some ws"
          "x = Inr (s\<lparr>ds_cr := cr', ds_hosts := hs, ds_workers := ws, ds_ctl := CtlCheck (Suc j)\<rparr>)"
        by (auto simp: check_worker_step_def check_timeout_def)
      have "dl_typed r ps (s\<lparr>ds_cr := cr', ds_workers := ?ws[j := ?w'], ds_workers := ws\<rparr>)"
        using typed_woken [OF mark [OF cr'(2,3)], of ws cr'] notify_one_woken [OF ws(1)] cr'(2) by simp
      then show ?thesis
        using ws(2) False True charged assms(2) by (simp add: fault_prone_def may_fault_def dl_typed_def)
    qed
  next
    case False
    then have "x = Inr (s\<lparr>ds_workers := ?ws[j := ?w'], ds_ctl := CtlCheck (Suc j)\<rparr>)"
      using True assms(3) by (simp add: check_worker_step_def check_timeout_def)
    with mark [OF cr refl] False assms(2) show ?thesis
      by (simp add: fault_prone_def may_fault_def dl_typed_def)
  qed
next
  case False
  with assms show ?thesis
    by (auto simp: check_worker_step_def fault_prone_def may_fault_def dl_typed_def)
qed

lemma typed_worker_moves:
  assumes "dl_typed r ps s" "i < length (ds_workers s) \<Longrightarrow>
      w_host (f (ds_workers s ! i)) = w_host (ds_workers s ! i) \<and>
      worker_typed (seg_count (ds_cr s)) (f (ds_workers s ! i))"
  shows "dl_typed r ps (upd_worker i f s)"
proof -
  have ok: "cr_ok (ds_cr s)" using assms(1) by (simp add: dl_typed_def)
  show ?thesis using typed_upd [OF assms(1) ok refl, of i f] assms(2) by simp
qed

lemma fire_typed:
  assumes ty: "dl_typed r ps s" and fired: "fire e s = Some x"
  shows "if fault_prone e s then x = Inl OutOfBounds else \<exists>s'. x = Inr s' \<and> dl_typed r ps s'"
  using fired
proof (cases rule: fire_cases)
  case (moved i q p)
  have "held p = None" using moved(2) by auto
  moreover have "\<not> fault_prone e s" using moved(1) by (auto simp: fault_prone_def may_fault_def)
  ultimately show ?thesis using typed_pc [OF ty] moved(5) by simp
next
  case (scanned i)
  then show ?thesis using typed_scan [OF ty, of i] by (simp add: fault_prone_def may_fault_def)
next
  case (owned i n)
  have "dl_typed r ps (upd_worker i (\<lambda>w. w\<lparr>owned_segment_id := n, w_pc := Downloading n\<rparr>) s)"
    by (rule typed_worker_moves [OF ty])
      (use typed_worker [OF ty owned(2)] owned(3) in \<open>auto simp: worker_typed_def\<close>)
  with owned show ?thesis by (simp add: fault_prone_def may_fault_def)
next
  case (received i bs n)
  with typed_receive [OF ty received(2-4)] show ?thesis by (simp add: fault_prone_def may_fault_def)
next
  case (failed i part k n)
  with typed_receive_failed [OF ty failed(2,3) _ failed(5)] show ?thesis
    by (simp add: fault_prone_def may_fault_def)
next
  case (stored i n)
  with typed_set_segment [OF ty stored(2,3)] show ?thesis by (simp add: fault_prone_def may_fault_def)
next
  case (terminated i)
  have "dl_typed r ps (upd_worker i (\<lambda>w. w\<lparr>w_closed := True, w_pc := Failed\<rparr>) s)"
    by (rule typed_worker_moves [OF ty]) (use typed_worker [OF ty, of i] in \<open>auto simp: worker_typed_def\<close>)
  with terminated show ?thesis by (simp add: fault_prone_def may_fault_def)
next
  case (ticked now)
  with typed_tick [OF ty, of now] show ?thesis by (auto simp: fault_prone_def)
next
  case (checked now k j)
  with typed_check_worker [OF ty checked(2,3)] show ?thesis by simp
next
  case (closed i)
  have "dl_typed r ps (upd_worker i close_worker s)"
    by (rule typed_worker_moves [OF ty])
      (use typed_worker [OF ty, of i] in \<open>auto simp: worker_typed_def close_worker_def\<close>)
  with closed show ?thesis by (simp add: fault_prone_def may_fault_def)
qed

section \<open>Every download\<close>

lemma run_typed:
  assumes "run_under allowed (init_download r hs (map DownloadWorker_new ps)) s"
  shows "dl_typed r ps s"
  using assms
proof (induction rule: run_under.induct)
  case (step s e s')
  then show ?case using fire_typed [of r ps s e "Inr s'"] by (auto split: if_splits)
qed (rule dl_typed_start)



end
