(* ===== verification/Whole_System.thy ===== *)
theory Whole_System
  imports Sharing Download_Types
begin

text \<open>
  The program with its downloads running in it. \<open>Main_Program\<close> has the modules around one
  database, \<open>Download_System\<close> the threads of one download; here any number of downloads run at
  the same time as the rest of the program, on the same \<open>Host\<close> objects: a ban charged by one
  download is seen by all, and by the next \<open>create_workers\<close>. A download ends by entering its file
  into the program's database and writing it through the program's file manager.
\<close>

section \<open>State\<close>

text \<open>
  The thread of the command \<open>download\<close> number \<open>i\<close>, once it runs: \<open>init\<close> gave up with a line for
  the log, or the workers were started.
\<close>

datatype 'ip download = Gave_Up string | Active "'ip dsys"

record 'ip system =
  sys_prog :: "'ip program"
  sys_threads :: "nat \<rightharpoonup> 'ip download"

definition new_system :: "'ip program \<Rightarrow> 'ip system" where
  "new_system s = \<lparr>sys_prog = s, sys_threads = Map.empty\<rparr>"

definition sys_db :: "'ip system \<Rightarrow> 'ip database" where
  "sys_db w = cli_db (prog_cli (sys_prog w))"

definition sys_downloads :: "'ip system \<Rightarrow> rptr list" where
  "sys_downloads w = cli_downloads (prog_cli (sys_prog w))"

text \<open>
  The workers hold \<open>shared_ptr\<close>s to the hosts of the database: a step of a download reads the
  objects as they are now, and what it writes is seen by everybody.
\<close>

definition on_hosts :: "'ip database \<Rightarrow> 'ip dsys \<Rightarrow> 'ip dsys" where
  "on_hosts db s = s\<lparr>ds_hosts := hostOf db\<rparr>"

definition put_hosts :: "(hptr \<Rightarrow> 'ip Host) \<Rightarrow> 'ip database \<Rightarrow> 'ip database" where
  "put_hosts hs db = db\<lparr>host_mem := (\<lambda>p. map_option (\<lambda>_. hs p) (host_mem db p))\<rparr>"

definition set_sys_db :: "'ip database \<Rightarrow> 'ip system \<Rightarrow> 'ip system" where
  "set_sys_db db w = w\<lparr>sys_prog := (sys_prog w)\<lparr>prog_cli := (prog_cli (sys_prog w))\<lparr>cli_db := db\<rparr>\<rparr>\<rparr>"

section \<open>Steps\<close>

datatype 'ip sys_event =
    Program "'ip prog_event"
  | Start_Download nat clock
  | Download_Step nat dl_event
  | Store_Download nat Uint8 bool nat

text \<open>The turn of \<open>controll_workers\<close> that leaves the loop; \<open>store_file\<close> follows it.\<close>

definition leaves_loop :: "dl_event \<Rightarrow> 'ip dsys \<Rightarrow> bool" where
  "leaves_loop ev s \<longleftrightarrow> (case ev of Tick now \<Rightarrow> is_completed (ds_cr s) | _ \<Rightarrow> False)"

definition start_download :: "nat \<Rightarrow> clock \<Rightarrow> 'ip system \<Rightarrow> 'ip system result option" where
  "start_download i now w =
     (if i < length (sys_downloads w) \<and> sys_threads w i = None
      then Some (bindE (DownloadService_init now (sys_db w) (sys_downloads w ! i)) (\<lambda>x.
             Inr (w\<lparr>sys_threads := (sys_threads w)(i \<mapsto>
               (case x of Inl line \<Rightarrow> Gave_Up line | Inr s \<Rightarrow> Active s))\<rparr>)))
      else None)"

definition download_step_at :: "nat \<Rightarrow> dl_event \<Rightarrow> 'ip system \<Rightarrow> 'ip system result option" where
  "download_step_at i ev w =
     (case sys_threads w i of
        Some (Active s) \<Rightarrow>
          if leaves_loop ev s then None
          else map_option (\<lambda>x. bindE x (\<lambda>s'.
                 Inr (set_sys_db (put_hosts (ds_hosts s') (sys_db w)) w
                        \<lparr>sys_threads := (sys_threads w)(i \<mapsto> Active s')\<rparr>)))
               (fire ev (on_hosts (sys_db w) s))
      | _ \<Rightarrow> None)"

text \<open>\<open>store_file\<close> with the resource as it is now; \<open>None\<close> also while the file is locked.\<close>

definition store_download ::
    "nat \<Rightarrow> Uint8 \<Rightarrow> bool \<Rightarrow> nat \<Rightarrow> 'ip system \<Rightarrow> 'ip system result option" where
  "store_download i junk created room w =
     (case sys_threads w i of
        Some (Active s) \<Rightarrow>
          if ds_ctl s = CtlWait \<and> is_completed (ds_cr s)
          then (case deref_res (sys_db w) (sys_downloads w ! i) of
                  Inl e \<Rightarrow> Some (Inl e)
                | Inr resource \<Rightarrow>
                    map_option (\<lambda>x. bindE x (\<lambda>(db, fm).
                      Inr (set_sys_db db (w\<lparr>sys_prog := (sys_prog w)\<lparr>prog_files := fm\<rparr>,
                             sys_threads := (sys_threads w)(i \<mapsto> Active (s\<lparr>ds_ctl := CtlStored\<rparr>))\<rparr>))))
                    (store_file junk created room ((ds_cr s)\<lparr>cr_resource := resource\<rparr>)
                      (sys_db w, prog_files (sys_prog w))))
          else None
      | _ \<Rightarrow> None)"

text \<open>All steps. The ends of downloads are here steps of the downloads, not events that come
  from outside, and nothing happens after \<open>quit\<close>.\<close>

fun system_step ::
    "endian \<Rightarrow> (string \<Rightarrow> file_size) \<Rightarrow> (string \<Rightarrow> string list) \<Rightarrow> 'ip sys_event \<Rightarrow> 'ip system \<Rightarrow>
     'ip system result option" where
  "system_step e fsize tokens (Program ev) w =
     (case ev of
        Download_Stored p data junk created room \<Rightarrow> None
      | _ \<Rightarrow> if cli_exited (prog_cli (sys_prog w)) then None
             else Some (bindE (prog_step e fsize tokens ev (sys_prog w)) (\<lambda>s. Inr (w\<lparr>sys_prog := s\<rparr>))))"
| "system_step e fsize tokens (Start_Download i now) w =
     (if cli_exited (prog_cli (sys_prog w)) then None else start_download i now w)"
| "system_step e fsize tokens (Download_Step i ev) w =
     (if cli_exited (prog_cli (sys_prog w)) then None else download_step_at i ev w)"
| "system_step e fsize tokens (Store_Download i junk created room) w =
     (if cli_exited (prog_cli (sys_prog w)) then None else store_download i junk created room w)"

inductive system_run ::
    "endian \<Rightarrow> (string \<Rightarrow> file_size) \<Rightarrow> (string \<Rightarrow> string list) \<Rightarrow> ('ip sys_event \<Rightarrow> 'ip system \<Rightarrow> bool) \<Rightarrow>
     'ip system \<Rightarrow> 'ip system \<Rightarrow> bool"
  for e fsize tokens allowed w0 where
  start: "system_run e fsize tokens allowed w0 w0"
| step: "system_run e fsize tokens allowed w0 w \<Longrightarrow> allowed ev w \<Longrightarrow>
    system_step e fsize tokens ev w = Some (Inr w') \<Longrightarrow> system_run e fsize tokens allowed w0 w'"

section \<open>Shared hosts\<close>

text \<open>A download changes nothing of a host but the record of its timeouts.\<close>

definition same_peer :: "'ip Host \<Rightarrow> 'ip Host \<Rightarrow> bool" where
  "same_peer a b \<longleftrightarrow> host_ip b = host_ip a \<and> possesed_resources b = possesed_resources a \<and>
     no_of_missed_updates b = no_of_missed_updates a"

lemma fire_hosts:
  assumes "fire ev s = Some (Inr s')"
  shows "same_peer (ds_hosts s p) (ds_hosts s' p)"
  using assms
proof (cases rule: fire_cases)
  case (checked now k j)
  then show ?thesis
    by (auto simp: check_worker_step_def check_timeout_def bindE_def same_peer_def split: if_splits sum.splits)
next
  case (failed i part k n)
  then show ?thesis
    by (auto simp: receive_failed_step_def same_peer_def set_pc_def upd_worker_def split: sum.splits)
qed (auto simp: same_peer_def set_pc_def upd_worker_def scan_step_def receive_step_def set_segment_step_def
  tick_step_def bindE_Inr_iff split: option.splits if_splits)

lemma download_stepE:
  assumes "download_step_at i ev w = Some (Inr w')" "sys_threads w i = Some (Active s)"
  obtains s' where "fire ev (on_hosts (sys_db w) s) = Some (Inr s')"
    "w' = set_sys_db (put_hosts (ds_hosts s') (sys_db w)) w\<lparr>sys_threads := (sys_threads w)(i \<mapsto> Active s')\<rparr>"
    "\<And>p. same_peer (hostOf (sys_db w) p) (ds_hosts s' p)"
proof -
  obtain s' where s': "fire ev (on_hosts (sys_db w) s) = Some (Inr s')"
      "w' = set_sys_db (put_hosts (ds_hosts s') (sys_db w)) w\<lparr>sys_threads := (sys_threads w)(i \<mapsto> Active s')\<rparr>"
    using assms by (auto simp: download_step_at_def bindE_Inr_iff split: if_splits)
  from that [OF this] fire_hosts [OF s'(1)] show thesis by (simp add: on_hosts_def)
qed

lemma hostOf_put_hosts:
  "host_mem db p \<noteq> None \<Longrightarrow> hostOf (put_hosts hs db) p = hs p"
  by (auto simp: put_hosts_def hostOf_def)

lemma put_hosts_simps [simp]:
  "my_host (put_hosts hs db) = my_host db" "resources (put_hosts hs db) = resources db"
  "hosts (put_hosts hs db) = hosts db" "res_mem (put_hosts hs db) = res_mem db"
  "next_host (put_hosts hs db) = next_host db" "next_res (put_hosts hs db) = next_res db"
  "resOf (put_hosts hs db) = resOf db" "files (put_hosts hs db) = files db"
  "host_mem (put_hosts hs db) p = None \<longleftrightarrow> host_mem db p = None"
  by (simp_all add: put_hosts_def resOf_def files_def fun_eq_iff)

lemma put_hosts_same: "put_hosts (hostOf db) db = db"
proof -
  have "(\<lambda>p. map_option (\<lambda>_. hostOf db p) (host_mem db p)) = host_mem db"
  proof (rule ext)
    fix p show "map_option (\<lambda>_. hostOf db p) (host_mem db p) = host_mem db p"
      by (cases "host_mem db p") (simp_all add: hostOf_def)
  qed
  then show ?thesis by (simp add: put_hosts_def)
qed

lemma put_hosts_keeps:
  assumes "db_inv db" "\<And>p. same_peer (hostOf db p) (hs p)"
  shows "db_inv (put_hosts hs db)" "keeps_files db (put_hosts hs db)" "owners (put_hosts hs db) = owners db"
proof -
  have h: "host_ip (hostOf (put_hosts hs db) p) = host_ip (hostOf db p)"
      "possesed_resources (hostOf (put_hosts hs db) p) = possesed_resources (hostOf db p)"
      "no_of_missed_updates (hostOf (put_hosts hs db) p) = no_of_missed_updates (hostOf db p)"
    if "p \<in> set (hosts db)" for p
    using assms(2) [of p] db_inv_host [OF assms(1) that] hostOf_put_hosts [of db p hs]
    by (simp_all add: same_peer_def)
  have i: "inj_on (\<lambda>p. host_ip (hostOf (put_hosts hs db) p)) (set (hosts db)) \<longleftrightarrow>
      inj_on (\<lambda>p. host_ip (hostOf db p)) (set (hosts db))"
    by (rule inj_on_cong) (rule h(1))
  have heap: "db_heap_ok (put_hosts hs db)"
    using assms(1) unfolding db_inv_def db_heap_ok_def by (simp add: h(2))
  have "p \<in> set (hosts db)" if "r \<in> set (resources db)" "p \<in> set (hosts_in_possession (resOf db r))" for p r
    using assms(1) that unfolding db_inv_def db_heap_ok_def by blast
  then have links: "db_links_ok (put_hosts hs db)"
    using assms(1) unfolding db_inv_def db_links_ok_def by (simp add: h(2,3))
  have "db_keys_ok (put_hosts hs db)"
    using assms(1) i by (simp add: db_inv_def db_keys_ok_def)
  with heap links show "db_inv (put_hosts hs db)" by (simp add: db_inv_def)
  show "keeps_files db (put_hosts hs db)"
    using h(1) [OF db_inv_my_host [OF assms(1)]] by (simp add: keeps_files_def local_ip_def)
  show "owners (put_hosts hs db) = owners db"
    unfolding owners_def put_hosts_simps by (intro Collect_cong ex_cong1) (use h in auto)
qed

section \<open>The invariant\<close>

text \<open>Each running download is in order for the key of the file it is listed with, and its workers'
  hosts are alive.\<close>

definition download_ok :: "'ip database \<Rightarrow> rptr \<Rightarrow> 'ip dsys \<Rightarrow> bool" where
  "download_ok db p s \<longleftrightarrow> (\<exists>r ps. dl_typed r ps s \<and> res_key r = res_key (resOf db p) \<and>
     set ps \<subseteq> set (hosts db))"

definition system_ok :: "'ip system \<Rightarrow> bool" where
  "system_ok w \<longleftrightarrow> prog_ok (sys_prog w) \<and>
     (\<forall>i s. sys_threads w i = Some (Active s) \<longrightarrow>
        i < length (sys_downloads w) \<and> download_ok (sys_db w) (sys_downloads w ! i) s)"

lemma system_ok_db:
  assumes "system_ok w"
  shows "db_inv (sys_db w)" "p \<in> set (sys_downloads w) \<Longrightarrow> p \<in> set (resources (sys_db w))"
  using assms by (auto simp: system_ok_def prog_ok_def cli_ok_def sys_db_def sys_downloads_def)

lemma on_hosts_simps [simp]:
  "ds_cr (on_hosts db s) = ds_cr s" "ds_workers (on_hosts db s) = ds_workers s"
  "ds_ctl (on_hosts db s) = ds_ctl s" "ds_stored (on_hosts db s) = ds_stored s"
  "ds_hosts (on_hosts db s) = hostOf db"
  by (simp_all add: on_hosts_def)

lemma inv_on_hosts [simp]:
  "dl_typed r ps (on_hosts db s) \<longleftrightarrow> dl_typed r ps s" "dl_inv r f (on_hosts db s) \<longleftrightarrow> dl_inv r f s"
  "fault_prone ev (on_hosts db s) \<longleftrightarrow> fault_prone ev s"
  by (simp_all add: dl_typed_def dl_inv_def) (cases ev; cases "ds_ctl s"; simp add: fault_prone_def may_fault_def)

text \<open>While the program goes on, a download keeps its place and its key.\<close>

lemma download_ok_keeps:
  assumes "download_ok db p s" "keeps_files db db'" "p \<in> set (resources db)"
  shows "download_ok db' p s"
proof -
  have "res_key (resOf db' p) = res_key (resOf db p)" "set (hosts db) \<subseteq> set (hosts db')"
    using assms(2,3) by (simp_all add: keeps_files_def)
  with assms(1) show ?thesis by (fastforce simp: download_ok_def)
qed

definition system_goes_on :: "'ip system \<Rightarrow> 'ip system \<Rightarrow> bool" where
  "system_goes_on w w' \<longleftrightarrow> goes_on (prog_cli (sys_prog w)) (prog_cli (sys_prog w'))"

lemma system_goes_onD:
  assumes "system_goes_on w w'"
  shows "keeps_files (sys_db w) (sys_db w')"
    and "i < length (sys_downloads w) \<Longrightarrow>
      i < length (sys_downloads w') \<and> sys_downloads w' ! i = sys_downloads w ! i"
  using assms by (auto simp: system_goes_on_def goes_on_def sys_db_def sys_downloads_def nth_append)

text \<open>A step that leaves the threads, or changes one of them, in a program that goes on.\<close>

lemma system_ok_thread:
  assumes "system_ok w" "prog_ok (sys_prog w')" "system_goes_on w w'"
    and "\<And>j. j \<noteq> i \<Longrightarrow> sys_threads w' j = sys_threads w j"
    and "\<And>s. sys_threads w' i = Some (Active s) \<Longrightarrow>
      i < length (sys_downloads w) \<and> download_ok (sys_db w) (sys_downloads w ! i) s"
  shows "system_ok w'"
proof -
  have "j < length (sys_downloads w') \<and> download_ok (sys_db w') (sys_downloads w' ! j) s"
    if t: "sys_threads w' j = Some (Active s)" for j s
  proof -
    have j: "j < length (sys_downloads w)" "download_ok (sys_db w) (sys_downloads w ! j) s"
      using assms(1,4,5) t by (cases "j = i"; force simp: system_ok_def)+
    have "sys_downloads w ! j \<in> set (resources (sys_db w))"
      using system_ok_db(2) [OF assms(1)] j(1) by simp
    from download_ok_keeps [OF j(2) system_goes_onD(1) [OF assms(3)] this]
    show ?thesis using system_goes_onD(2) [OF assms(3) j(1)] by simp
  qed
  with assms(2) show ?thesis by (simp add: system_ok_def)
qed

lemma new_system_ok: "prog_ok s \<Longrightarrow> system_ok (new_system s)"
  by (simp add: system_ok_def new_system_def)

section \<open>Preservation\<close>

text \<open>A database that keeps its files and their owners can take the place of the program's.\<close>

lemma prog_ok_set_db:
  assumes "prog_ok s" "db_inv db" "keeps_files (cli_db (prog_cli s)) db" "files db = files (cli_db (prog_cli s))"
  shows "prog_ok (s\<lparr>prog_cli := (prog_cli s)\<lparr>cli_db := db\<rparr>\<rparr>)"
proof -
  have "cli_ok ((prog_cli s)\<lparr>cli_db := db\<rparr>)"
    by (rule cli_ok_new_db) (use assms in \<open>auto simp: prog_ok_def keeps_files_def\<close>)
  with assms(1) show ?thesis by (simp add: prog_ok_def)
qed

lemma set_sys_db_simps [simp]:
  "sys_db (set_sys_db db w) = db" "sys_downloads (set_sys_db db w) = sys_downloads w"
  "sys_threads (set_sys_db db w) = sys_threads w" "prog_files (sys_prog (set_sys_db db w)) = prog_files (sys_prog w)"
  by (simp_all add: set_sys_db_def sys_db_def sys_downloads_def)

lemma start_download_ok:
  assumes "system_ok w" "start_download i now w = Some x"
  shows "\<exists>w'. x = Inr w' \<and> system_ok w' \<and> system_goes_on w w'"
proof -
  let ?db = "sys_db w" and ?p = "sys_downloads w ! i"
  have i: "i < length (sys_downloads w)" and x: "x = bindE (DownloadService_init now ?db ?p) (\<lambda>y.
      Inr (w\<lparr>sys_threads := (sys_threads w)(i \<mapsto>
        (case y of Inl line \<Rightarrow> Gave_Up line | Inr s \<Rightarrow> Active s))\<rparr>))"
    using assms(2) by (auto simp: start_download_def split: if_splits)
  have db: "db_inv ?db" "?p \<in> set (resources ?db)" using system_ok_db [OF assms(1)] i by simp_all
  obtain c where "create_workers now ?db ?p = Inr c"
    using create_workers_eq [OF db, of now] by (auto simp: Let_def split: if_splits)
  then obtain y where y: "DownloadService_init now ?db ?p = Inr y"
    using deref_res_ok [OF db_inv_res [OF db]] by (cases c) (auto simp: DownloadService_init_def)
  let ?w = "w\<lparr>sys_threads := (sys_threads w)(i \<mapsto> (case y of Inl line \<Rightarrow> Gave_Up line | Inr s \<Rightarrow> Active s))\<rparr>"
  have "download_ok ?db ?p s" if s: "y = Inr s" for s
  proof -
    obtain ps where "s = init_download (resOf ?db ?p) (hostOf ?db) (map DownloadWorker_new ps)"
        "set ps \<subseteq> set (hosts_in_possession (resOf ?db ?p))"
      using DownloadService_init_starts [OF db y [unfolded s]] by blast
    with db_inv_in_possession [OF db] dl_typed_start show ?thesis
      unfolding download_ok_def by blast
  qed
  then have "system_ok ?w"
    using i assms(1) by (intro system_ok_thread [OF assms(1), of ?w i])
      (auto simp: system_ok_def system_goes_on_def split: sum.splits)
  with x y show ?thesis by (simp add: system_goes_on_def)
qed

lemma download_step_ok:
  assumes "system_ok w" "sys_threads w i = Some (Active s)" "\<not> fault_prone ev s"
    and "download_step_at i ev w = Some x"
  shows "\<exists>s' w'. fire ev (on_hosts (sys_db w) s) = Some (Inr s') \<and> x = Inr w' \<and>
    w' = set_sys_db (put_hosts (ds_hosts s') (sys_db w)) w
      \<lparr>sys_threads := (sys_threads w)(i \<mapsto> Active s')\<rparr> \<and> system_ok w' \<and> system_goes_on w w'"
proof -
  let ?db = "sys_db w" and ?p = "sys_downloads w ! i"
  obtain y where y: "fire ev (on_hosts ?db s) = Some y" and x: "x = bindE y (\<lambda>s'.
      Inr (set_sys_db (put_hosts (ds_hosts s') ?db) w\<lparr>sys_threads := (sys_threads w)(i \<mapsto> Active s')\<rparr>))"
    using assms(2,4) by (auto simp: download_step_at_def split: if_splits)
  obtain r ps where ty: "dl_typed r ps s" "res_key r = res_key (resOf ?db ?p)" "set ps \<subseteq> set (hosts ?db)"
      and i: "i < length (sys_downloads w)"
    using assms(1,2) unfolding system_ok_def download_ok_def by blast
  from ty(1) have "dl_typed r ps (on_hosts ?db s)" by simp
  from fire_typed [OF this y] assms(3) obtain s' where s': "y = Inr s'" "dl_typed r ps s'" by auto
  let ?db' = "put_hosts (ds_hosts s') ?db"
  let ?w = "set_sys_db ?db' w\<lparr>sys_threads := (sys_threads w)(i \<mapsto> Active s')\<rparr>"
  have "same_peer (hostOf ?db p) (ds_hosts s' p)" for p
    using fire_hosts [OF y [unfolded s'(1)], of p] by simp
  note put = put_hosts_keeps [OF system_ok_db(1) [OF assms(1)] this]
  have go: "system_goes_on w ?w"
    using put(2) by (simp add: system_goes_on_def goes_on_def set_sys_db_def sys_db_def)
  have "prog_ok (sys_prog ?w)"
    using prog_ok_set_db [OF _ put(1), of "sys_prog w"] assms(1) put(2)
    by (simp add: system_ok_def set_sys_db_def sys_db_def)
  moreover have "download_ok ?db ?p s'" using s'(2) ty(2,3) by (auto simp: download_ok_def)
  ultimately have "system_ok ?w"
    using go i by (intro system_ok_thread [OF assms(1), of ?w i]) simp_all
  with go x y s'(1) show ?thesis by simp
qed

text \<open>The end of a download. Its buffer holds the file: its sizes are those of the resource.\<close>

lemma store_download_ok:
  assumes "system_ok w" "sys_threads w i = Some (Active s)"
    and "unat (res_size (cr_resource (ds_cr s))) \<le> 65535 * SEGMENT_SIZE"
    and "store_download i junk created room w = Some x"
  obtains w' db fm where "x = Inr w'" "system_ok w'" "system_goes_on w w'"
    "add_file_local (resOf (sys_db w) (sys_downloads w ! i)) (sys_db w) = Inr db" "sys_db w' = db"
    "store_resource junk created room ((ds_cr s)\<lparr>cr_resource := resOf (sys_db w) (sys_downloads w ! i)\<rparr>)
       (prog_files (sys_prog w)) = Some (Inr fm)"
    "prog_files (sys_prog w') = fm" "sys_threads w' = (sys_threads w)(i \<mapsto> Active (s\<lparr>ds_ctl := CtlStored\<rparr>))"
proof -
  let ?db = "sys_db w" and ?p = "sys_downloads w ! i"
  let ?cr = "(ds_cr s)\<lparr>cr_resource := resOf ?db ?p\<rparr>"
  obtain r ps where ty: "dl_typed r ps s" "res_key r = res_key (resOf ?db ?p)" "set ps \<subseteq> set (hosts ?db)"
      and i: "i < length (sys_downloads w)"
    using assms(1,2) unfolding system_ok_def download_ok_def by blast
  have db: "db_inv ?db" "?p \<in> set (resources ?db)" using system_ok_db [OF assms(1)] i by simp_all
  have d: "deref_res ?db ?p = Inr (resOf ?db ?p)" by (rule deref_res_ok [OF db_inv_res [OF db]])
  have cr: "cr_ok (ds_cr s)" "res_size (resOf ?db ?p) = res_size (cr_resource (ds_cr s))"
    using ty(1,2) by (simp_all add: dl_typed_def res_key_def)
  have "unat (res_size (cr_resource (ds_cr s))) \<le> seg_count (ds_cr s) * SEGMENT_SIZE"
    using segments_cover [OF assms(3)] by (simp add: seg_count_def)
  then obtain c where "file_contents (ds_cr s) = Inr c" using length_file_contents [OF cr(1)] by blast
  then have c: "file_contents ?cr = Inr c" by (simp add: file_contents_def cr(2))
  have ok: "prog_ok (sys_prog w)" using assms(1) by (simp add: system_ok_def)
  obtain db' where db': "add_file_local (resOf ?db ?p) ?db = Inr db'" "db_extends ?db db'"
      "cli_ok ((prog_cli (sys_prog w))\<lparr>cli_db := db'\<rparr>)"
    and st: "store_file junk created room ?cr (?db, prog_files (sys_prog w)) =
       map_option (\<lambda>x. bindE x (\<lambda>fm. Inr (db', fm))) (store_resource junk created room ?cr (prog_files (sys_prog w)))"
      "store_resource junk created room ?cr (prog_files (sys_prog w)) = None \<or>
       (\<exists>fm. store_resource junk created room ?cr (prog_files (sys_prog w)) = Some (Inr fm))"
    by (rule store_file_runs [OF ok, of ?p ?cr c junk created room]) (use db(2) c in \<open>auto simp: sys_db_def\<close>)
  define stored where "stored fm = set_sys_db db' (w\<lparr>sys_prog := (sys_prog w)\<lparr>prog_files := fm\<rparr>,
      sys_threads := (sys_threads w)(i \<mapsto> Active (s\<lparr>ds_ctl := CtlStored\<rparr>))\<rparr>)" for fm
  obtain fm where fm: "store_resource junk created room ?cr (prog_files (sys_prog w)) = Some (Inr fm)"
      "x = Inr (stored fm)"
    using assms(2,4) d st by (auto simp: store_download_def stored_def split: if_splits)
  have go: "system_goes_on w (stored fm)"
    using extends_keeps_files [OF db'(2) db(1)]
    by (simp add: system_goes_on_def goes_on_def stored_def set_sys_db_def sys_db_def)
  have "prog_ok (sys_prog (stored fm))"
    using ok db'(3) by (simp add: stored_def set_sys_db_def prog_ok_def)
  moreover have "download_ok ?db ?p (s\<lparr>ds_ctl := CtlStored\<rparr>)"
    using ty by (auto simp: download_ok_def dl_typed_def)
  ultimately have "system_ok (stored fm)"
    by (intro system_ok_thread [OF assms(1) _ go, of i]) (use i in \<open>auto simp: stored_def\<close>)
  then show thesis
    by (rule that [OF fm(2) _ go db'(1) _ fm(1)]) (simp_all add: stored_def)
qed

lemma program_step_ok:
  assumes "system_ok w" "harmless e tokens ev (sys_prog w)"
    and "system_step e fsize tokens (Program ev) w = Some x"
  shows "\<exists>w'. x = Inr w' \<and> system_ok w' \<and> system_goes_on w w' \<and> sys_threads w' = sys_threads w"
proof -
  have ok: "prog_ok (sys_prog w)" using assms(1) by (simp add: system_ok_def)
  obtain s where s: "prog_step e fsize tokens ev (sys_prog w) = Inr s" "prog_ok s"
    using prog_step_ok [OF ok assms(2)] by blast
  with assms(3) have x: "x = Inr (w\<lparr>sys_prog := s\<rparr>)"
    by (auto split: prog_event.splits if_splits)
  have "goes_on (prog_cli (sys_prog w)) (prog_cli s)"
    using s(1) event_goes_on [of e fsize tokens ev "sys_prog w" s] system_ok_db(1) [OF assms(1)]
    by (auto simp: prog_step_def sys_db_def split: if_splits)
  then have go: "system_goes_on w (w\<lparr>sys_prog := s\<rparr>)" by (simp add: system_goes_on_def)
  have "system_ok (w\<lparr>sys_prog := s\<rparr>)"
    by (rule system_ok_thread [OF assms(1) _ go, of undefined])
      (use s(2) assms(1) in \<open>auto simp: system_ok_def\<close>)
  with x go show ?thesis by simp
qed

section \<open>Safety of the system\<close>

text \<open>
  The events the system is safe against: what is harmless to the program, downloads of at most
  65535 segments, and no step of a download that is one of the three that can fault.
\<close>

fun safe_event :: "endian \<Rightarrow> (string \<Rightarrow> string list) \<Rightarrow> 'ip sys_event \<Rightarrow> 'ip system \<Rightarrow> bool" where
  "safe_event e tokens (Program ev) w = harmless e tokens ev (sys_prog w)"
| "safe_event e tokens (Start_Download i now) w = True"
| "safe_event e tokens (Download_Step i ev) w =
     (case sys_threads w i of Some (Active s) \<Rightarrow> \<not> fault_prone ev s | _ \<Rightarrow> True)"
| "safe_event e tokens (Store_Download i junk created room) w =
     (case sys_threads w i of
        Some (Active s) \<Rightarrow> unat (res_size (cr_resource (ds_cr s))) \<le> 65535 * SEGMENT_SIZE
      | _ \<Rightarrow> True)"

lemma system_step_ok:
  assumes "system_ok w" "safe_event e tokens ev w" "system_step e fsize tokens ev w = Some x"
  shows "\<exists>w'. x = Inr w' \<and> system_ok w' \<and> system_goes_on w w'"
proof (cases ev)
  case (Program ev')
  with assms program_step_ok [OF assms(1), of e tokens ev' fsize x] show ?thesis by auto
next
  case (Start_Download i now)
  with assms start_download_ok [OF assms(1), of i now x] show ?thesis by (auto split: if_splits)
next
  case (Download_Step i ev')
  then have step: "download_step_at i ev' w = Some x" using assms(3) by (auto split: if_splits)
  then obtain s where s: "sys_threads w i = Some (Active s)"
    by (auto simp: download_step_at_def split: option.splits download.splits)
  from download_step_ok [OF assms(1) s _ step] assms(2) Download_Step s show ?thesis by auto
next
  case (Store_Download i junk created room)
  then have step: "store_download i junk created room w = Some x" using assms(3) by (auto split: if_splits)
  then obtain s where s: "sys_threads w i = Some (Active s)"
    by (auto simp: store_download_def split: option.splits download.splits)
  have "unat (res_size (cr_resource (ds_cr s))) \<le> 65535 * SEGMENT_SIZE"
    using assms(2) Store_Download s by simp
  then show ?thesis by (rule store_download_ok [OF assms(1) s _ step]) blast
qed

lemma system_run_ok:
  assumes "system_run e fsize tokens allowed w0 w" "system_ok w0"
    and "\<And>ev w. allowed ev w \<Longrightarrow> safe_event e tokens ev w"
  shows "system_ok w"
  using assms(1)
proof (induction rule: system_run.induct)
  case (step w ev w')
  with system_step_ok [OF step.IH assms(3) [OF step.hyps(2)] step.hyps(3)] show ?case by auto
qed (rule assms(2))


text \<open>After \<open>main\<close> the one file of the database can be asked for at the command line.\<close>

lemma main_file_downloads:
  obtains s0 s1 :: "nat program" and x where "main_program (\<lambda>_. 0) (7 :: nat) disk = Inr s0"
    "prog_step e fsize (\<lambda>line. [''download'', line]) (Typed ''XD'') s0 = Inr s1"
    "\<not> cli_exited (prog_cli s0)" "\<not> cli_exited (prog_cli s1)" "cli_downloads (prog_cli s1) = [0]"
    "DownloadService_init 0 (cli_db (prog_cli s1)) 0 = Inr (Inr x)" "at_pc x 0 Connecting"
proof -
  obtain db where db: "main_database (\<lambda>_. 0) (7 :: nat) = Inr db" "db_inv db"
    using add_file_local_correct [OF Resource_Database_new_correct(1) [of "\<lambda>_. 0" "7 :: nat"]]
    by (auto simp: main_database_def)
  have "resources db = [0] \<and> res_name (resOf db 0) = ''XD'' \<and> \<not> invalidated (resOf db 0) \<and>
      hosts_in_possession (resOf db 0) = [0] \<and> \<not> is_retarded 0 (hostOf db 0)"
    using db(1)
    by (auto simp: main_database_def add_file_local_def add_file_def add_file_internal_def Resource_Database_new_def
        find_resource_def find_host_def deref_host_def emplace_resource_def emplace_host_def push_links_def
        upd_host_def upd_res_def Let_def Host_new_def Resource_copy_def Resource_new_def
        resOf_def hostOf_def is_retarded_def to_time_t_def)
  note xd = this
  obtain s0 where s0: "main_program (\<lambda>_. 0) (7 :: nat) disk = Inr s0" "prog_ok s0" "\<not> cli_exited (prog_cli s0)"
    by (rule main_program_state [of "\<lambda>_. 0" "7 :: nat" disk])
  then have start: "cli_db (prog_cli s0) = db" "cli_downloads (prog_cli s0) = []"
    using db(1) by (auto simp: main_program_def)
  obtain s1 where s1: "prog_step e fsize (\<lambda>line. [''download'', line]) (Typed ''XD'') s0 = Inr s1"
      "cli_db (prog_cli s1) = db" "cli_downloads (prog_cli s1) = [0]" "\<not> cli_exited (prog_cli s1)"
    using typed_download [of s0 "\<lambda>line. [''download'', line]" "''XD''" "''XD''" e fsize] s0(2,3) start xd
    by (auto simp: prog_ok_def)
  have d: "create_workers 0 db 0 = Inr (Inr [DownloadWorker_new 0])"
    using create_workers_eq [OF db(2), of 0 0] xd by simp
  have "deref_res db 0 = Inr (resOf db 0)"
    by (rule deref_res_ok [OF db_inv_res [OF db(2)]]) (simp add: xd)
  with d have "DownloadService_init 0 (cli_db (prog_cli s1)) 0 =
      Inr (Inr (init_download (resOf db 0) (hostOf db) [DownloadWorker_new 0]))"
    by (simp add: DownloadService_init_def s1(2))
  from that [OF s0(1) s1(1) s0(3) s1(4,3) this] show thesis
    by (simp add: at_pc_def init_download_def DownloadWorker_new_def)
qed


end
