(* ===== verification/System_Downloads.thy ===== *)
theory System_Downloads
  imports Whole_System
begin

text \<open>
  What a download can rely on in the running program of \<open>Whole_System\<close>: the file it stores is the
  peers' file and it can always be completed, whatever the rest of the program and the other
  downloads do; and what it cannot: the other downloads ban its hosts.
\<close>

section \<open>Bans\<close>

text \<open>Charging worker \<open>j\<close> changes the record of its host, in the database, and no other host.\<close>

lemma charge_in_database:
  assumes "sys_threads w i = Some (Active s)" "ds_ctl s = CtlCheck j" "j < length (ds_workers s)"
    and "w_timeouted (ds_workers s ! j)" "download_step_at i (Check_Worker now k) w = Some (Inr w')"
    and "host_mem (sys_db w) q \<noteq> None"
  shows "hostOf (sys_db w') q =
    (if q = w_host (ds_workers s ! j) then increase_timeout_counter now (hostOf (sys_db w) q)
     else hostOf (sys_db w) q)"
proof -
  obtain s' where s': "fire (Check_Worker now k) (on_hosts (sys_db w) s) = Some (Inr s')"
      "sys_db w' = put_hosts (ds_hosts s') (sys_db w)"
    by (rule download_stepE [OF assms(5,1)]) (simp add: set_sys_db_def sys_db_def)
  have "ds_hosts s' = (hostOf (sys_db w))(w_host (ds_workers s ! j) :=
      increase_timeout_counter now (hostOf (sys_db w) (w_host (ds_workers s ! j))))"
    using s'(1) assms(2-4) by (auto simp: check_worker_step_def check_timeout_def bindE_def split: sum.splits)
  with s'(2) hostOf_put_hosts [OF assms(6)] show ?thesis by simp
qed

lemma banned_now:
  "TIMEOUT_COUNTER_LIMIT \<le> sint (timeout_counter (increase_timeout_counter now h)) \<Longrightarrow>
   is_retarded now (increase_timeout_counter now h)"
  by (simp add: increase_timeout_counter_def Let_def is_retarded_def to_time_t_def split: if_splits)


section \<open>One download among others\<close>

text \<open>Download \<open>i\<close> is charged no timeout, and its replies are those of peers that have the file.
  Nothing is said of the other downloads.\<close>

fun undisturbed :: "nat \<Rightarrow> endian \<Rightarrow> string \<Rightarrow> Uint8 list \<Rightarrow> 'ip sys_event \<Rightarrow> 'ip system \<Rightarrow> bool" where
  "undisturbed i e name f (Download_Step j ev) w =
     (case sys_threads w i of
        Some (Active s) \<Rightarrow> j = i \<longrightarrow> no_timeout ev s \<and> served e name f ev s
      | _ \<Rightarrow> True)"
| "undisturbed i e name f _ w = True"

lemma environment_on_hosts [simp]:
  "no_timeout ev (on_hosts db s) \<longleftrightarrow> no_timeout ev s"
  "served e name f ev (on_hosts db s) \<longleftrightarrow> served e name f ev s"
  by (cases ev; cases "ds_ctl s"; simp) (cases ev; simp split: thread_pc.split)

text \<open>A download that starts, and a step of the download itself.\<close>

lemma starts_in_order:
  assumes "system_ok w" "start_download i now w = Some (Inr w')"
    and "sys_threads w' i = Some (Active s')"
  shows "i < length (sys_downloads w)" "dl_inv (resOf (sys_db w) (sys_downloads w ! i)) f s'"
proof -
  obtain y where y: "DownloadService_init now (sys_db w) (sys_downloads w ! i) = Inr y"
      "w' = w\<lparr>sys_threads := (sys_threads w)(i \<mapsto> (case y of Inl line \<Rightarrow> Gave_Up line | Inr s \<Rightarrow> Active s))\<rparr>"
    and i: "i < length (sys_downloads w)"
    using assms(2) by (auto simp: start_download_def bindE_Inr_iff split: if_splits)
  then have s: "DownloadService_init now (sys_db w) (sys_downloads w ! i) = Inr (Inr s')"
    using assms(3) by (cases y) auto
  show "i < length (sys_downloads w)" by (rule i)
  have "db_inv (sys_db w)" "sys_downloads w ! i \<in> set (resources (sys_db w))"
    using system_ok_db [OF assms(1)] i by simp_all
  then obtain ps where "s' = init_download (resOf (sys_db w) (sys_downloads w ! i)) (hostOf (sys_db w))
      (map DownloadWorker_new ps)"
    using DownloadService_init_starts [OF _ _ s] by blast
  then show "dl_inv (resOf (sys_db w) (sys_downloads w ! i)) f s'" by (simp add: dl_inv_new)
qed

lemma goes_on_in_order:
  assumes "dl_inv r f s" "fire ev (on_hosts db s) = Some (Inr s')" "no_timeout ev s" "served e (res_name r) f ev s"
    and "length (res_name r) \<le> 256" "nul_free (res_name r)"
    and "length f = unat (res_size r)" "unat (res_size r) \<le> 65535 * SEGMENT_SIZE"
  shows "dl_inv r f s'"
proof -
  have hdr: "header_ok r" "unat (res_size r) < 2 ^ 26" using assms(5,6,8) by (simp_all add: header_ok_def)
  have d: "dl_inv r f (on_hosts db s)" "no_timeout ev (on_hosts db s)" "served e (res_name r) f ev (on_hosts db s)"
    using assms(1,3,4) by simp_all
  from fire_dl_inv [OF d(1) assms(2) d(2) served_honest [OF d(1) assms(2) d(3) hdr(1) assms(7) hdr(2)]]
  show ?thesis by (auto split: if_splits)
qed

lemma undisturbed_step:
  assumes "system_ok w" "safe_event e tokens ev w" "undisturbed i e name f ev w"
    and "system_step e fsize tokens ev w = Some (Inr w')"
    and "i < length (sys_downloads w) \<Longrightarrow> res_key (resOf (sys_db w) (sys_downloads w ! i)) = (name, n)"
    and "length name \<le> 256" "nul_free name" "length f = unat n" "unat n \<le> 65535 * SEGMENT_SIZE"
    and "\<And>s. sys_threads w i = Some (Active s) \<Longrightarrow> \<exists>r. dl_inv r f s \<and> res_key r = (name, n)"
    and "sys_threads w' i = Some (Active s')"
  shows "\<exists>r. dl_inv r f s' \<and> res_key r = (name, n)"
proof (cases ev)
  case (Program ev')
  with assms(2,4) program_step_ok [OF assms(1), of e tokens ev' fsize "Inr w'"]
  have "sys_threads w' = sys_threads w" by auto
  with assms(10,11) show ?thesis by simp
next
  case (Start_Download j now)
  then have start: "start_download j now w = Some (Inr w')" using assms(4) by (auto split: if_splits)
  show ?thesis
  proof (cases "j = i")
    case True
    from starts_in_order [OF assms(1) start [unfolded True] assms(11)] assms(5) show ?thesis by blast
  qed (use start assms(10,11) in \<open>auto simp: start_download_def bindE_Inr_iff split: if_splits\<close>)
next
  case (Download_Step j ev')
  then have step: "download_step_at j ev' w = Some (Inr w')" using assms(4) by (auto split: if_splits)
  then obtain s where s: "sys_threads w j = Some (Active s)"
    by (auto simp: download_step_at_def split: option.splits download.splits)
  obtain s1 where
      s1: "fire ev' (on_hosts (sys_db w) s) = Some (Inr s1)" "sys_threads w' = (sys_threads w)(j \<mapsto> Active s1)"
    by (rule download_stepE [OF step s]) simp
  show ?thesis
  proof (cases "j = i")
    case True
    then obtain r where r: "dl_inv r f s" "res_name r = name" "res_size r = n" "res_key r = (name, n)"
      using assms(10) s by (auto simp: res_key_def)
    have "no_timeout ev' s" "served e (res_name r) f ev' s" using assms(3) Download_Step True s r(2) by simp_all
    from goes_on_in_order [OF r(1) s1(1) this] assms(6-9) r(2,3) have "dl_inv r f s1" by simp
    with r(4) s1(2) True assms(11) show ?thesis by auto
  qed (use assms(10,11) s1(2) in auto)
next
  case (Store_Download j junk created room)
  then have step: "store_download j junk created room w = Some (Inr w')" using assms(4) by (auto split: if_splits)
  then obtain s where s: "sys_threads w j = Some (Active s)"
    by (auto simp: store_download_def split: option.splits download.splits)
  have "unat (res_size (cr_resource (ds_cr s))) \<le> 65535 * SEGMENT_SIZE"
    using assms(2) Store_Download s by simp
  then have "sys_threads w' = (sys_threads w)(j \<mapsto> Active (s\<lparr>ds_ctl := CtlStored\<rparr>))"
    by (rule store_download_ok [OF assms(1) s _ step]) simp
  with assms(10,11) s show ?thesis by (auto simp: dl_inv_def split: if_splits)
qed

lemma undisturbed_run:
  assumes "system_run e fsize tokens (\<lambda>ev w. safe_event e tokens ev w \<and> undisturbed i e name f ev w)
      (new_system s0) w"
    and "prog_ok s0" "length name \<le> 256" "nul_free name" "length f = unat n" "unat n \<le> 65535 * SEGMENT_SIZE"
    and "sys_threads w i = Some (Active s)" "res_key (resOf (sys_db w) (sys_downloads w ! i)) = (name, n)"
  shows "\<exists>r. dl_inv r f s \<and> res_key r = (name, n)"
proof -
  define key where "key w \<longleftrightarrow> (i < length (sys_downloads w) \<longrightarrow>
      res_key (resOf (sys_db w) (sys_downloads w ! i)) = (name, n))" for w :: "'a system"
  have "key w \<Longrightarrow> sys_threads w i = Some (Active s) \<Longrightarrow> \<exists>r. dl_inv r f s \<and> res_key r = (name, n)"
    using assms(1)
  proof (induction arbitrary: s rule: system_run.induct)
    case start
    then show ?case by (simp add: new_system_def)
  next
    case (step w ev w')
    have ok: "system_ok w" by (rule system_run_ok [OF step.hyps(1) new_system_ok [OF assms(2)]]) simp
    have env: "safe_event e tokens ev w" "undisturbed i e name f ev w" using step.hyps(2) by simp_all
    have go: "system_goes_on w w'" using system_step_ok [OF ok env(1) step.hyps(3)] by auto
    have k: "key w"
    proof -
      have "res_key (resOf (sys_db w') p) = res_key (resOf (sys_db w) p)" if "p \<in> set (resources (sys_db w))" for p
        using system_goes_onD(1) [OF go] that by (simp add: keeps_files_def)
      with step.prems(1) system_goes_onD(2) [OF go, of i] system_ok_db(2) [OF ok, of "sys_downloads w ! i"]
      show ?thesis by (auto simp: key_def)
    qed
    show ?case
      by (rule undisturbed_step [OF ok env step.hyps(3) _ assms(3-6) step.IH [OF k] step.prems(2)])
        (use k in \<open>auto simp: key_def\<close>)
  qed
  with assms(7,8) show ?thesis by (simp add: key_def)
qed

text \<open>The end of a download whose completed segments are those of \<open>f\<close>.\<close>

lemma stored_in_system:
  assumes "system_ok w" "sys_threads w i = Some (Active s)" "dl_inv r f s" "res_key r = (name, n)"
    and "res_key (resOf (sys_db w) (sys_downloads w ! i)) = (name, n)"
    and "length f = unat n" "unat n \<le> 65535 * SEGMENT_SIZE" "length f \<le> room"
    and "store_download i junk True room w = Some x"
  shows "\<exists>w'. x = Inr w' \<and> fm_disk (prog_files (sys_prog w')) name = Some f \<and>
    (local_ip (sys_db w'), name, n) \<in> owners (sys_db w') \<and>
    (name \<notin> write_locked (prog_files (sys_prog w)) \<longrightarrow>
       (\<forall>v. worker_ready v \<longrightarrow> serves name f v (prog_files (sys_prog w'))))"
proof -
  let ?r = "resOf (sys_db w) (sys_downloads w ! i)"
  have completed: "is_completed (ds_cr s)"
    using assms(2,9) by (auto simp: store_download_def split: if_splits)
  have cr: "segments_ok f (ds_cr s)" "cr_resource (ds_cr s) = r"
      and size: "res_size r = n" "res_size ?r = n" "res_name ?r = name"
    using assms(3-5) by (auto simp: dl_inv_def res_key_def)
  have small: "unat (res_size (cr_resource (ds_cr s))) \<le> 65535 * SEGMENT_SIZE"
    using assms(7) cr(2) size(1) by simp
  have fc: "file_contents ((ds_cr s)\<lparr>cr_resource := ?r\<rparr>) = Inr (map Some f)"
    using completed_file [OF cr(1) completed small] assms(6) cr(2) size by (simp add: file_contents_def)
  obtain w' db fm where w': "x = Inr w'" "add_file_local ?r (sys_db w) = Inr db" "sys_db w' = db"
      "store_resource junk True room ((ds_cr s)\<lparr>cr_resource := ?r\<rparr>) (prog_files (sys_prog w)) = Some (Inr fm)"
      "prog_files (sys_prog w') = fm"
    by (rule store_download_ok [OF assms(1,2) small assms(9)])
  have "(local_ip db, name, n) \<in> owners db"
    using add_file_local_owns(2) [OF system_ok_db(1) [OF assms(1)] w'(2)] assms(5) by simp
  moreover have "fm_disk fm name = Some f" "name \<notin> read_locked fm"
      "name \<notin> write_locked (prog_files (sys_prog w)) \<Longrightarrow> name \<notin> write_locked fm"
    using store_resource_writes [OF fc assms(8) w'(4)] size(3) by simp_all
  ultimately show ?thesis
    using w'(1,3,5) by (auto simp: serves_def worker_ready_def)
qed


section \<open>Such runs exist\<close>

text \<open>What the worker threads of a download can do alone, they can do in the system.\<close>

lemma lift_schedule:
  assumes "run_events (quiet f) es s = Some s'" "dl_inv r f s"
    and "sys_threads w i = Some (Active s)" "ds_hosts s = hostOf (sys_db w)" "\<not> cli_exited (prog_cli (sys_prog w))"
    and "system_run e fsize tokens allowed w0 w"
    and "\<And>ev d d' v. quiet f ev d \<Longrightarrow> fire ev d = Some (Inr d') \<Longrightarrow> dl_inv r f d \<Longrightarrow>
      sys_threads v i = Some (Active d) \<Longrightarrow> allowed (Download_Step i ev) v"
  shows "system_run e fsize tokens allowed w0 (w\<lparr>sys_threads := (sys_threads w)(i \<mapsto> Active s')\<rparr>)"
  using assms(1-6)
proof (induction es arbitrary: s w)
  case Nil
  then have "w\<lparr>sys_threads := (sys_threads w)(i \<mapsto> Active s')\<rparr> = w" by (simp add: map_upd_triv)
  with Nil.prems(6) show ?case by (simp only:)
next
  case (Cons ev es)
  then obtain s1 where s1: "quiet f ev s" "fire ev s = Some (Inr s1)" "run_events (quiet f) es s1 = Some s'"
    by (auto split: option.splits sum.splits if_splits)
  have inv: "dl_inv r f s1"
    by (rule quiet_dl_inv [of f "[ev]" s s1, OF _ Cons.prems(2)]) (use s1(1,2) in simp)
  have h: "ds_hosts s1 = hostOf (sys_db w)"
    using worker_step_frame [OF s1(2)] s1(1) Cons.prems(4) by (simp add: quiet_def)
  have "on_hosts (sys_db w) s = s" using Cons.prems(4) by (simp add: on_hosts_def)
  moreover have "put_hosts (hostOf (sys_db w)) (sys_db w) = sys_db w" by (rule put_hosts_same)
  moreover have "\<not> leaves_loop ev s" using s1(1) by (cases ev) (simp_all add: quiet_def leaves_loop_def)
  ultimately have step: "system_step e fsize tokens (Download_Step i ev) w =
      Some (Inr (w\<lparr>sys_threads := (sys_threads w)(i \<mapsto> Active s1)\<rparr>))"
    using Cons.prems(3,5) s1(2) h by (simp add: download_step_at_def set_sys_db_def sys_db_def)
  have "allowed (Download_Step i ev) w" by (rule assms(7) [OF s1(1,2) Cons.prems(2,3)])
  let ?w1 = "w\<lparr>sys_threads := (sys_threads w)(i \<mapsto> Active s1)\<rparr>"
  have "system_run e fsize tokens allowed w0 (?w1\<lparr>sys_threads := (sys_threads ?w1)(i \<mapsto> Active s')\<rparr>)"
    by (rule Cons.IH [OF s1(3) inv _ _ _ system_run.step [OF Cons.prems(6) \<open>allowed _ w\<close> step]])
      (use h Cons.prems(5) in \<open>simp_all add: sys_db_def\<close>)
  moreover have "?w1\<lparr>sys_threads := (sys_threads ?w1)(i \<mapsto> Active s')\<rparr> =
      w\<lparr>sys_threads := (sys_threads w)(i \<mapsto> Active s')\<rparr>" by (rule system.equality) simp_all
  ultimately show ?case by (simp only:)
qed

lemma quiet_allowed:
  assumes "quiet f ev d" "fire ev d = Some (Inr d')" "dl_inv r f d" "sys_threads v i = Some (Active d)"
    and "res_key r = (name, n)" "length name \<le> 256" "nul_free name" "length f = unat n" "unat n \<le> 65535 * SEGMENT_SIZE"
  shows "safe_event e tokens (Download_Step i ev) v \<and> undisturbed i e name f (Download_Step i ev) v"
proof -
  have env: "no_timeout ev d" "honest f ev d" "worker_step ev"
    using quiet_no_timeout [OF assms(1)] assms(1) by (simp_all add: quiet_def)
  have "\<not> may_fault ev d" using fire_dl_inv [OF assms(3,2) env(1,2)] by (auto split: if_splits)
  then have "\<not> fault_prone ev d" using env(3) by (cases ev) (simp_all add: fault_prone_def)
  moreover have "header_ok r" "length f = unat (res_size r)" "unat (res_size r) < 2 ^ 26" "res_name r = name"
    using assms(5-9) by (auto simp: header_ok_def res_key_def)
  then have "served e name f ev d" using honest_served [OF assms(3,2) env(2)] by blast
  ultimately show ?thesis using env(1) assms(4) by simp
qed

lemma store_resource_waits:
  "store_resource junk created room cr fm = None \<longleftrightarrow> res_name (cr_resource cr) \<in> read_locked fm"
  by (auto simp: store_resource_def write_lock_def list_ex_iff read_locked_def Let_def split: if_splits)

lemma runs_to_completion:
  assumes "prog_ok s0"
    and "system_run e fsize tokens (\<lambda>ev w. safe_event e tokens ev w \<and> undisturbed i e name f ev w)
      (new_system s0) w"
    and "res_key (resOf (sys_db w) (sys_downloads w ! i)) = (name, n)" "length name \<le> 256" "nul_free name"
    and "length f = unat n" "unat n \<le> 65535 * SEGMENT_SIZE"
    and "i < length (sys_downloads w)" "sys_threads w i = None" "\<not> cli_exited (prog_cli (sys_prog w))"
    and "h \<in> set (hosts_in_possession (resOf (sys_db w) (sys_downloads w ! i)))"
    and "\<not> is_retarded now (hostOf (sys_db w) h)" "name \<notin> read_locked (prog_files (sys_prog w))"
  shows "\<exists>w' x. system_run e fsize tokens (\<lambda>ev w. safe_event e tokens ev w \<and> undisturbed i e name f ev w)
      (new_system s0) w' \<and>
    sys_prog w' = sys_prog w \<and> system_step e fsize tokens (Store_Download i junk True (length f)) w' = Some x"
proof -
  let ?ok = "\<lambda>ev w. safe_event e tokens ev w \<and> undisturbed i e name f ev w"
  let ?p = "sys_downloads w ! i" and ?r = "resOf (sys_db w) (sys_downloads w ! i)"
  have ok: "system_ok w" by (rule system_run_ok [OF assms(2) new_system_ok [OF assms(1)]]) simp
  have db: "db_inv (sys_db w)" "?p \<in> set (resources (sys_db w))" using system_ok_db [OF ok] assms(8) by simp_all
  obtain d where d: "DownloadService_init now (sys_db w) ?p = Inr (Inr d)"
    using DownloadService_init_runs [OF db assms(11,12)] by blast
  then obtain ps where ps: "d = init_download ?r (hostOf (sys_db w)) (map DownloadWorker_new ps)" "0 < length ps"
    using DownloadService_init_starts [OF db d] by (metis length_greater_0_conv)
  let ?w1 = "w\<lparr>sys_threads := (sys_threads w)(i \<mapsto> Active d)\<rparr>"
  have "system_step e fsize tokens (Start_Download i now) w = Some (Inr ?w1)"
    using d assms(8-10) by (simp add: start_download_def)
  then have run1: "system_run e fsize tokens ?ok (new_system s0) ?w1"
    by (rule system_run.step [OF assms(2), rotated]) simp
  obtain es s where s: "run_events (quiet f) es d = Some s" "is_completed (ds_cr s)"
    using fetches [OF ps(2), of f ?r "hostOf (sys_db w)"] assms(3,6,7) ps(1) by (auto simp: res_key_def)
  have "dl_inv ?r f d" "ds_hosts d = hostOf (sys_db ?w1)" "sys_threads ?w1 i = Some (Active d)"
      "\<not> cli_exited (prog_cli (sys_prog ?w1))"
    using ps(1) dl_inv_new assms(10) by (simp_all add: init_download_def sys_db_def)
  note live = this
  have run2: "system_run e fsize tokens ?ok (new_system s0) (?w1\<lparr>sys_threads := (sys_threads ?w1)(i \<mapsto> Active s)\<rparr>)"
    by (rule lift_schedule [OF s(1) live(1,3,2,4) run1]) (rule quiet_allowed [OF _ _ _ _ assms(3-7)])
  have ctl: "ds_ctl s = CtlWait" using quiet_ctl [OF s(1)] ps(1) by (simp add: init_download_def)
  have "deref_res (sys_db w) ?p = Inr ?r" by (rule deref_res_ok [OF db_inv_res [OF db]])
  moreover have "store_resource junk True (length f) ((ds_cr s)\<lparr>cr_resource := ?r\<rparr>) (prog_files (sys_prog w)) \<noteq> None"
    using assms(3,13) by (simp add: store_resource_waits res_key_def)
  moreover obtain db' where "add_file_local ?r (sys_db w) = Inr db'" using add_file_local_correct [OF db(1)] by blast
  ultimately have "\<exists>x. system_step e fsize tokens (Store_Download i junk True (length f))
      (?w1\<lparr>sys_threads := (sys_threads ?w1)(i \<mapsto> Active s)\<rparr>) = Some x"
    using assms(10) s(2) ctl by (auto simp: store_download_def store_file_def sys_db_def sys_downloads_def)
  with run2 show ?thesis by fastforce
qed


section \<open>Runs from concrete states\<close>

text \<open>A database that knows a file of a peer.\<close>

lemma peer_database:
  obtains db :: "nat database" where "db_inv db" "resources db = [0]" "res_key (resOf db 0) = (''small'', 5)"
    "hosts_in_possession (resOf db 0) = [1]" "\<not> is_retarded 0 (hostOf db 1)"
proof -
  let ?db0 = "Resource_Database_new (\<lambda>_. 0) (7 :: nat)"
  obtain db where db: "add_file small_resource 8 ?db0 = Inr db" "db_inv db"
    using add_file_internal_correct [OF Resource_Database_new_correct(1), of small_resource 8 "\<lambda>_. 0" "7 :: nat"]
    unfolding add_file_def by blast
  have "resources db = [0] \<and> res_key (resOf db 0) = (''small'', 5) \<and>
      hosts_in_possession (resOf db 0) = [1] \<and> \<not> is_retarded 0 (hostOf db 1)"
    using db(1)
    by (auto simp: add_file_def add_file_internal_def Resource_Database_new_def find_resource_def
        find_host_def deref_host_def emplace_resource_def emplace_host_def push_links_def upd_host_def
        upd_res_def Let_def Host_new_def Resource_copy_def Resource_new_def small_resource_def res_key_def
        resOf_def hostOf_def is_retarded_def to_time_t_def)
  with db(2) that show thesis by blast
qed

text \<open>A program that has started to download that file.\<close>

definition downloading :: "nat database \<Rightarrow> nat program" where
  "downloading db = \<lparr>prog_cli = (new_CLI db)\<lparr>cli_downloads := [0]\<rparr>, prog_server = None,
     prog_requests = None, prog_files = FileManager_new (\<lambda>_. None)\<rparr>"

lemma downloading_ok:
  assumes "db_inv db" "resources db = [0]" "res_key (resOf db 0) = (''small'', 5)"
  shows "prog_ok (downloading db)"
proof -
  have "files db = {(''small'', 5)}" using assms(2,3) by (simp add: files_def)
  then have "cli_ok (new_CLI db)" by (intro new_CLI_ok [OF assms(1)]) simp
  with assms(2) show ?thesis by (simp add: downloading_def prog_ok_def cli_ok_def new_CLI_def)
qed

lemma downloading_start:
  obtains db :: "nat database" where "prog_ok (downloading db)"
    "res_key (resOf (sys_db (new_system (downloading db))) (sys_downloads (new_system (downloading db)) ! 0)) = (''small'', 5)"
    "0 < length (sys_downloads (new_system (downloading db)))"
    "sys_threads (new_system (downloading db)) 0 = None"
    "\<not> cli_exited (prog_cli (sys_prog (new_system (downloading db))))"
    "1 \<in> set (hosts_in_possession (resOf (sys_db (new_system (downloading db)))
       (sys_downloads (new_system (downloading db)) ! 0)))"
    "\<not> is_retarded 0 (hostOf (sys_db (new_system (downloading db))) 1)"
    "''small'' \<notin> read_locked (prog_files (sys_prog (new_system (downloading db))))"
proof -
  obtain db :: "nat database" where db: "db_inv db" "resources db = [0]" "res_key (resOf db 0) = (''small'', 5)"
      "hosts_in_possession (resOf db 0) = [1]" "\<not> is_retarded 0 (hostOf db 1)"
    by (rule peer_database)
  from that [OF downloading_ok [OF db(1-3)]] db(3-5) show thesis
    by (simp add: new_system_def sys_db_def sys_downloads_def downloading_def new_CLI_def FileManager_new_def
        read_locked_def)
qed

lemma small_file_facts:
  "length ''small'' \<le> 256" "nul_free ''small''" "length small_file = unat (5 :: Uint64)"
  "unat (5 :: Uint64) \<le> 65535 * SEGMENT_SIZE"
  by (simp_all add: nul_free_def small_file_def)



text \<open>Two downloads of the file from the same peer, which is one timeout away from its ban.\<close>

definition slow_peer :: "nat database \<Rightarrow> nat database" where
  "slow_peer db = put_hosts (\<lambda>p. (hostOf db p)\<lparr>timeout_counter := 19\<rparr>) db"

definition two_downloads :: "nat database \<Rightarrow> nat system" where
  "two_downloads db =
     (let d = init_download (resOf db 0) (hostOf db) [DownloadWorker_new 1];
          late = (DownloadWorker_new 1)\<lparr>w_timeouted := True, owned_segment_id := 0, w_pc := Downloading 0\<rparr>
      in \<lparr>sys_prog = (downloading db)\<lparr>prog_cli := (prog_cli (downloading db))\<lparr>cli_downloads := [0, 0]\<rparr>\<rparr>,
          sys_threads = [0 \<mapsto> Active (d\<lparr>ds_ctl := CtlCheck 0, ds_workers := [late]\<rparr>), 1 \<mapsto> Active d]\<rparr>)"

lemma two_downloads_ok:
  assumes "db_inv db" "resources db = [0]" "res_key (resOf db 0) = (''small'', 5)" "1 \<in> set (hosts db)"
  shows "system_ok (two_downloads db)"
proof -
  let ?r = "resOf db 0"
  have "calc_segments_count ?r = 1" using assms(3) by (simp add: res_key_def calc_segments_count_def)
  then have ty: "dl_typed ?r [1] d" if "sys_threads (two_downloads db) i = Some (Active d)" for i d
    using that CompleteResource_new_ok [of ?r]
    by (auto simp: two_downloads_def Let_def init_download_def dl_typed_def worker_typed_def DownloadWorker_new_def
        CompleteResource_new_def split: if_splits)
  have at: "i < length (sys_downloads (two_downloads db)) \<and> sys_db (two_downloads db) = db \<and>
      sys_downloads (two_downloads db) ! i = 0"
    if "sys_threads (two_downloads db) i = Some (Active d)" for i d
    using that by (auto simp: two_downloads_def Let_def sys_downloads_def sys_db_def downloading_def new_CLI_def
        split: if_splits)
  have "prog_ok (sys_prog (two_downloads db))"
    using downloading_ok [OF assms(1-3)] assms(2)
    by (simp add: two_downloads_def Let_def prog_ok_def cli_ok_def downloading_def new_CLI_def)
  moreover have "download_ok (sys_db (two_downloads db)) (sys_downloads (two_downloads db) ! i) d"
    if "sys_threads (two_downloads db) i = Some (Active d)" for i d
    unfolding download_ok_def using ty [OF that] at [OF that] assms(4)
    by (intro exI [of _ ?r] exI [of _ "[1]"]) simp
  ultimately show ?thesis using at unfolding system_ok_def by blast
qed


end
