(* ===== verification/Download_Teardown.thy ===== *)
theory Download_Teardown
  imports Download_Termination Download_Anomalies Download_Types
begin

text \<open>
  The end of a download: \<open>~DownloadService\<close> in \<^verbatim>\<open>src/DownloadService.cpp\<close>, which closes every
  worker and joins its thread, and what \<open>DownloadWorker::close\<close> does to the socket of a worker.
  \<open>Download_System\<close> leaves the state of the sockets out; here each worker's socket is open or not, since
  \<open>close\<close> calls \<open>cancel\<close> on it, which throws when it is not, and the exception leaves the
  destructor.
\<close>

section \<open>State\<close>

text \<open>Where the destructor stands: not entered, closing worker \<open>j\<close>, joining thread \<open>j\<close>, or returned.\<close>

datatype dtor_pc = Dtor_Pending | Dtor_Closing nat | Dtor_Joining nat | Dtor_Done

record 'ip teardown =
  td_sys :: "'ip dsys"
  td_open :: "bool list"
  td_pc :: dtor_pc

definition td_start :: "'ip dsys \<Rightarrow> 'ip teardown" where
  "td_start s = \<lparr>td_sys = s, td_open = map (\<lambda>_. False) (ds_workers s), td_pc = Dtor_Pending\<rparr>"

section \<open>Steps\<close>

datatype td_event = Thread_Step dl_event | Open_Socket nat | Dtor_Enter | Dtor_Step

text \<open>
  \<open>socket.connect\<close> opens the socket before it connects, so a thread in \<open>connect\<close> has a closed
  socket first and an open one later; it can fail before and after. The call of \<open>close\<close> by the
  destructor is a step of the destructor.
\<close>

definition thread_step :: "dl_event \<Rightarrow> 'ip teardown \<Rightarrow> 'ip teardown result option" where
  "thread_step ev s =
     (if (case ev of Close i \<Rightarrow> True | Connected i \<Rightarrow> \<not> (i < length (td_open s) \<and> td_open s ! i) | _ \<Rightarrow> False)
      then None
      else map_option (\<lambda>x. bindE x (\<lambda>d. Inr (s\<lparr>td_sys := d\<rparr>))) (fire ev (td_sys s)))"

definition open_socket :: "nat \<Rightarrow> 'ip teardown \<Rightarrow> 'ip teardown option" where
  "open_socket i s =
     (if at_pc (td_sys s) i Connecting \<and> i < length (td_open s) \<and> \<not> td_open s ! i
      then Some (s\<lparr>td_open := (td_open s)[i := True]\<rparr>) else None)"

text \<open>\<open>close\<close>: \<open>cancel\<close> says whether \<open>socket.cancel()\<close> throws, given whether the socket is open.\<close>

definition close_step :: "(bool \<Rightarrow> bool) \<Rightarrow> nat \<Rightarrow> 'ip teardown \<Rightarrow> 'ip teardown result" where
  "close_step cancel j s =
     (if cancel (td_open s ! j) then Inl UncaughtException
      else Inr (s\<lparr>td_sys := upd_worker j close_worker (td_sys s)\<rparr>))"

text \<open>The turns of the loops of \<open>close_workers\<close> and \<open>join_workers\<close>; a join waits for the thread to
  end.\<close>

definition close_workers_step ::
    "(bool \<Rightarrow> bool) \<Rightarrow> nat \<Rightarrow> 'ip teardown \<Rightarrow> 'ip teardown result option" where
  "close_workers_step cancel j s =
     (if j < length (ds_workers (td_sys s))
      then Some (bindE (close_step cancel j s) (\<lambda>s. Inr (s\<lparr>td_pc := Dtor_Closing (Suc j)\<rparr>)))
      else Some (Inr (s\<lparr>td_pc := Dtor_Joining 0\<rparr>)))"

definition join_workers_step :: "nat \<Rightarrow> 'ip teardown \<Rightarrow> 'ip teardown result option" where
  "join_workers_step j s =
     (if j < length (ds_workers (td_sys s))
      then if w_pc (ds_workers (td_sys s) ! j) \<in> {Finished, Failed}
           then Some (Inr (s\<lparr>td_pc := Dtor_Joining (Suc j)\<rparr>)) else None
      else Some (Inr (s\<lparr>td_pc := Dtor_Done\<rparr>)))"

definition dtor_step :: "(bool \<Rightarrow> bool) \<Rightarrow> 'ip teardown \<Rightarrow> 'ip teardown result option" where
  "dtor_step cancel s =
     (case td_pc s of
        Dtor_Closing j \<Rightarrow> close_workers_step cancel j s
      | Dtor_Joining j \<Rightarrow> join_workers_step j s
      | _ \<Rightarrow> None)"

lemmas dtor_step_defs = dtor_step_def close_workers_step_def join_workers_step_def

fun td_step :: "(bool \<Rightarrow> bool) \<Rightarrow> td_event \<Rightarrow> 'ip teardown \<Rightarrow> 'ip teardown result option" where
  "td_step cancel (Thread_Step ev) s = thread_step ev s"
| "td_step cancel (Open_Socket i) s = map_option Inr (open_socket i s)"
| "td_step cancel Dtor_Enter s =
     (if td_pc s = Dtor_Pending \<and> ds_ctl (td_sys s) \<in> {CtlStored, CtlAborted}
      then Some (Inr (s\<lparr>td_pc := Dtor_Closing 0\<rparr>)) else None)"
| "td_step cancel Dtor_Step s = dtor_step cancel s"

inductive td_run :: "(bool \<Rightarrow> bool) \<Rightarrow> 'ip teardown \<Rightarrow> 'ip teardown \<Rightarrow> bool" for cancel s0 where
  start: "td_run cancel s0 s0"
| step: "td_run cancel s0 s \<Longrightarrow> td_step cancel ev s = Some (Inr s') \<Longrightarrow> td_run cancel s0 s'"

text \<open>Running a given list of steps, up to a fault.\<close>

fun td_events :: "(bool \<Rightarrow> bool) \<Rightarrow> td_event list \<Rightarrow> 'ip teardown \<Rightarrow> 'ip teardown result option" where
  "td_events cancel [] s = Some (Inr s)"
| "td_events cancel (ev # evs) s =
     (case td_step cancel ev s of
        Some (Inr s') \<Rightarrow> td_events cancel evs s'
      | Some (Inl e) \<Rightarrow> if evs = [] then Some (Inl e) else None
      | None \<Rightarrow> None)"

text \<open>What Boost documents of \<open>cancel\<close> on a synchronous socket: it fails exactly if the socket is not
  open.\<close>

definition asio_cancel :: "(bool \<Rightarrow> bool) \<Rightarrow> bool" where
  "asio_cancel cancel \<longleftrightarrow> cancel False \<and> \<not> cancel True"

section \<open>Closing\<close>

text \<open>A thread past \<open>connect\<close> has opened its socket.\<close>

definition unconnected :: "thread_pc \<Rightarrow> bool" where
  "unconnected p \<longleftrightarrow> p \<in> {Connecting, Failing, Failed}"

definition sockets_ok :: "'ip teardown \<Rightarrow> bool" where
  "sockets_ok s \<longleftrightarrow> length (td_open s) = length (ds_workers (td_sys s)) \<and>
     (\<forall>i < length (td_open s). \<not> unconnected (w_pc (ds_workers (td_sys s) ! i)) \<longrightarrow> td_open s ! i)"

text \<open>No step of a download but \<open>Connected\<close> takes a thread out of \<open>connect\<close> with success.\<close>

definition stays :: "DownloadWorker \<Rightarrow> DownloadWorker \<Rightarrow> bool" where
  "stays w w' \<longleftrightarrow> (unconnected (w_pc w) \<longrightarrow> unconnected (w_pc w'))"

lemma stays_simps [simp]: "stays w w" "woken w w' \<Longrightarrow> stays w w'"
  by (auto simp: stays_def woken_def unconnected_def)

lemma stays_woken: "list_all2 woken ws ws' \<Longrightarrow> list_all2 stays ws ws'"
  by (erule list_all2_mono) simp

lemma stays_upd:
  assumes "list_all2 stays ws ws'" "i < length ws \<Longrightarrow> stays (ws ! i) w"
  shows "list_all2 stays ws (ws'[i := w])"
  unfolding list_all2_conv_all_nth
proof (intro conjI allI impI)
  show "length ws = length (ws'[i := w])" using assms(1) by (simp add: list_all2_lengthD)
  show "stays (ws ! k) (ws'[i := w] ! k)" if "k < length ws" for k
    using assms that list_all2_nthD [OF assms(1) that] list_all2_lengthD [OF assms(1)]
    by (cases "k = i") simp_all
qed

lemma stays_upd_worker:
  assumes "list_all2 stays ws (ds_workers s)" "i < length ws \<Longrightarrow> stays (ws ! i) (f (ds_workers s ! i))"
  shows "list_all2 stays ws (ds_workers (upd_worker i f s))"
  unfolding upd_worker_def using stays_upd [OF assms] by simp

lemma fire_stays:
  assumes "fire ev s = Some (Inr s')" "\<And>i. ev \<noteq> Connected i"
  shows "list_all2 stays (ds_workers s) (ds_workers s')"
  using assms(1)
proof (cases rule: fire_cases)
  case (moved i q p)
  have "\<not> unconnected q \<or> unconnected p" using moved(2,6) assms(2) by (auto simp: unconnected_def)
  with moved(4,5) show ?thesis
    by (auto simp: set_pc_def at_pc_def stays_def intro!: stays_upd_worker list_all2_refl)
next
  case (scanned i)
  then show ?thesis
    by (auto simp: scan_step_def bindE_Inr_iff set_pc_def at_pc_def stays_def unconnected_def
        intro!: stays_upd_worker list_all2_refl split: option.splits)
next
  case (received i bs n)
  then show ?thesis
    by (auto simp: receive_step_def bindE_Inr_iff stays_def unconnected_def intro!: stays_upd_worker list_all2_refl)
next
  case (failed i part k n)
  then obtain ws cr where ws: "notify_one k (ds_workers s) = Some ws"
      "s' = set_pc i Failing (s\<lparr>ds_cr := cr, ds_workers := ws\<rparr>)"
    by (auto simp: receive_failed_step_def split: sum.splits)
  with stays_woken [OF notify_one_woken [OF ws(1)]] show ?thesis
    by (auto simp: set_pc_def stays_def [of "_ ! _"] unconnected_def [of Failing] intro!: stays_upd_worker)
next
  case (stored i n)
  then obtain all cr where "s' = set_pc i LoopHead (s\<lparr>ds_cr := cr,
      ds_workers := (if all then notify_all (ds_workers s) else ds_workers s)\<rparr>)"
    by (auto simp: set_segment_step_def bindE_Inr_iff)
  moreover have "list_all2 stays (ds_workers s) (if all then notify_all (ds_workers s) else ds_workers s)"
    using stays_woken [OF notify_all_woken] by (simp add: list_all2_refl)
  ultimately show ?thesis
    using stored(3) by (auto simp: set_pc_def stays_def [of "_ ! _"] unconnected_def intro!: stays_upd_worker)
next
  case (checked now k j)
  let ?ws = "(ds_workers s)[j := (ds_workers s ! j)\<lparr>w_timeouted := True\<rparr>]"
  have "list_all2 stays (ds_workers s) ?ws" by (rule stays_upd) (auto simp: stays_def intro: list_all2_refl)
  moreover have "list_all2 stays ?ws (ds_workers s')"
    by (rule stays_woken [OF check_worker_workers]) (use checked(3) in simp)
  ultimately show ?thesis by (rule list_all2_trans [rotated]) (simp add: stays_def)
qed (use assms in \<open>auto simp: stays_def unconnected_def at_pc_def close_worker_def tick_step_def bindE_Inr_iff
  intro!: stays_upd_worker list_all2_refl split: if_splits\<close>)

lemma sockets_ok_start: "sockets_ok (td_start (init_download r hs (map DownloadWorker_new ps)))"
  by (simp add: sockets_ok_def td_start_def init_download_def unconnected_def DownloadWorker_new_def)

lemma sockets_ok_thread:
  assumes "sockets_ok s" "thread_step ev s = Some (Inr s')"
  shows "sockets_ok s'"
proof -
  obtain d where d: "fire ev (td_sys s) = Some (Inr d)" "s' = s\<lparr>td_sys := d\<rparr>"
    using assms(2) by (auto simp: thread_step_def bindE_Inr_iff split: if_splits)
  have conn: "i < length (td_open s) \<and> td_open s ! i" if "ev = Connected i" for i
    using assms(2) that by (simp add: thread_step_def split: if_splits)
  show ?thesis
  proof (cases "\<exists>i. ev = Connected i")
    case True
    then obtain i where "ev = Connected i" by blast
    with d conn [of i] assms(1) show ?thesis
      by (auto simp: sockets_ok_def set_pc_def upd_worker_def nth_list_update split: if_splits)
  next
    case False
    then have "list_all2 stays (ds_workers (td_sys s)) (ds_workers d)" using fire_stays [OF d(1)] by blast
    with assms(1) d(2) show ?thesis by (auto simp: sockets_ok_def stays_def list_all2_conv_all_nth)
  qed
qed

lemma dtor_step_cases:
  assumes "dtor_step cancel s = Some x"
  obtains
    (close) j where "td_pc s = Dtor_Closing j" "j < length (ds_workers (td_sys s))" "\<not> cancel (td_open s ! j)"
      "x = Inr (s\<lparr>td_sys := upd_worker j close_worker (td_sys s), td_pc := Dtor_Closing (Suc j)\<rparr>)"
  | (thrown) j where "td_pc s = Dtor_Closing j" "j < length (ds_workers (td_sys s))" "cancel (td_open s ! j)"
      "x = Inl UncaughtException"
  | (closed) j where "td_pc s = Dtor_Closing j" "\<not> j < length (ds_workers (td_sys s))"
      "x = Inr (s\<lparr>td_pc := Dtor_Joining 0\<rparr>)"
  | (joined) j where "td_pc s = Dtor_Joining j" "j < length (ds_workers (td_sys s))"
      "w_pc (ds_workers (td_sys s) ! j) \<in> {Finished, Failed}" "x = Inr (s\<lparr>td_pc := Dtor_Joining (Suc j)\<rparr>)"
  | (returned) j where "td_pc s = Dtor_Joining j" "\<not> j < length (ds_workers (td_sys s))"
      "x = Inr (s\<lparr>td_pc := Dtor_Done\<rparr>)"
  using assms by (auto simp: dtor_step_defs close_step_def split: dtor_pc.splits if_splits)

lemma sockets_ok_step:
  assumes "sockets_ok s" "td_step cancel ev s = Some (Inr s')"
  shows "sockets_ok s'"
proof (cases ev)
  case (Thread_Step e)
  with assms sockets_ok_thread show ?thesis by simp
next
  case (Open_Socket i)
  with assms show ?thesis
    by (auto simp: open_socket_def sockets_ok_def nth_list_update split: if_splits)
next
  case Dtor_Enter
  with assms show ?thesis by (auto simp: sockets_ok_def split: if_splits)
next
  case Dtor_Step
  then have "dtor_step cancel s = Some (Inr s')" using assms(2) by simp
  then show ?thesis
    by (cases rule: dtor_step_cases)
      (use assms(1) in \<open>auto simp: sockets_ok_def upd_worker_def close_worker_def nth_list_update split: if_splits\<close>)
qed

text \<open>C32: What closing a worker does. In every interleaving of the threads of a download with its
  destructor, whatever the environment does: the call of \<open>close\<close> on a worker ends the process
  exactly when the worker's socket is not open, and that is only possible for a worker whose thread
  has not come past \<open>connect\<close>, because it has not started to connect or has failed to.\<close>

theorem closing_unconnected_worker:
  assumes "asio_cancel cancel"
    and "td_run cancel (td_start (init_download r hs (map DownloadWorker_new ps))) s"
    and "td_pc s = Dtor_Closing j" "j < length (td_open s)"
  shows "(if td_open s ! j then \<exists>s'. td_step cancel Dtor_Step s = Some (Inr s')
     else td_step cancel Dtor_Step s = Some (Inl UncaughtException) \<and>
       w_pc (ds_workers (td_sys s) ! j) \<in> {Connecting, Failing, Failed})"
proof -
  have ok: "sockets_ok s"
    using assms(2) sockets_ok_start by (induction rule: td_run.induct) (auto intro: sockets_ok_step)
  then have "j < length (ds_workers (td_sys s))" using assms(4) by (simp add: sockets_ok_def)
  with assms(1,3,4) ok show ?thesis
    by (auto simp: dtor_step_defs close_step_def asio_cancel_def sockets_ok_def unconnected_def)
qed

section \<open>The empty file\<close>

text \<open>C33: The download of an empty file can end the process. Its resource is complete before it
  starts, so the controlling thread stores it at once and enters the destructor, which may close
  the first worker before its thread has opened the socket: the exception of \<open>cancel\<close> leaves the
  destructor, although the file has been stored and every host would have answered.\<close>

theorem empty_download_race:
  assumes "asio_cancel cancel" "res_size r = 0" "ps \<noteq> []"
  shows "\<exists>s. td_events cancel [Thread_Step (Tick now), Dtor_Enter]
      (td_start (init_download r hs (map DownloadWorker_new ps))) = Some (Inr s) \<and>
    ds_stored (td_sys s) = Some [] \<and> td_step cancel Dtor_Step s = Some (Inl UncaughtException)"
proof -
  have n: "calc_segments_count r = 0" using assms(2) by (simp add: calc_segments_count_def)
  have "ps ! 0 \<in> set ps" "0 < length ps" using assms(3) by simp_all
  with assms n show ?thesis
    by (simp add: td_start_def init_download_def thread_step_def tick_step_def is_completed_def
        CompleteResource_new_def file_contents_def mem_range_def dtor_step_defs close_step_def asio_cancel_def)
qed

section \<open>The destructor returns, unless a worker waits\<close>

text \<open>The steps that are left when the destructor runs: replies are honest and no wake-up is
  spurious. There are no timeouts any more, since the controlling thread has left its loop.\<close>

fun settled :: "Uint8 list \<Rightarrow> td_event \<Rightarrow> 'ip teardown \<Rightarrow> bool" where
  "settled f (Thread_Step ev) s = (honest f ev (td_sys s) \<and> not_spurious ev)"
| "settled f _ s = True"

fun td_events_under ::
    "(bool \<Rightarrow> bool) \<Rightarrow> (td_event \<Rightarrow> 'ip teardown \<Rightarrow> bool) \<Rightarrow> td_event list \<Rightarrow> 'ip teardown \<Rightarrow> 'ip teardown option" where
  "td_events_under cancel allowed [] s = Some s"
| "td_events_under cancel allowed (ev # evs) s =
     (if allowed ev s
      then case td_step cancel ev s of Some (Inr s') \<Rightarrow> td_events_under cancel allowed evs s' | _ \<Rightarrow> None
      else None)"

text \<open>What the destructor, the sockets and the threads still have to do.\<close>

definition dtor_left :: "nat \<Rightarrow> dtor_pc \<Rightarrow> nat" where
  "dtor_left n p =
     (case p of Dtor_Pending \<Rightarrow> 2 * n + 3 | Dtor_Closing j \<Rightarrow> 2 * n + 2 - j
      | Dtor_Joining j \<Rightarrow> n + 1 - j | Dtor_Done \<Rightarrow> 0)"

definition td_left :: "'ip teardown \<Rightarrow> nat" where
  "td_left s = potential (td_sys s) + length (filter Not (td_open s)) +
     dtor_left (length (ds_workers (td_sys s))) (td_pc s)"

definition td_inv :: "Resource \<Rightarrow> Uint8 list \<Rightarrow> 'ip teardown \<Rightarrow> bool" where
  "td_inv r f s \<longleftrightarrow> dl_inv r f (td_sys s) \<and> ds_ctl (td_sys s) \<in> {CtlStored, CtlAborted} \<and>
     length (td_open s) = length (ds_workers (td_sys s)) \<and>
     (case td_pc s of Dtor_Closing j \<Rightarrow> j \<le> length (td_open s) | Dtor_Joining j \<Rightarrow> j \<le> length (td_open s)
      | _ \<Rightarrow> True)"

lemma fire_length_ctl:
  assumes "fire ev s = Some (Inr s')" "ds_ctl s \<in> {CtlStored, CtlAborted}"
  shows "length (ds_workers s') = length (ds_workers s) \<and> ds_ctl s' = ds_ctl s \<and>
    (worker_step ev \<or> (\<exists>i. ev = Close i)) \<and> no_timeout ev s"
proof -
  have ev: "worker_step ev \<or> (\<exists>i. ev = Close i)" "no_timeout ev s"
    using assms by (cases ev; auto split: ctl_pc.splits)+
  have "ds_ctl s' = ds_ctl s"
    using ev(1) worker_step_frame [OF assms(1)] assms(1) by (auto simp: upd_worker_def split: if_splits)
  moreover have "length (ds_workers s') = length (ds_workers s)"
  proof (cases "\<exists>i. ev = Connected i")
    case True
    with assms(1) show ?thesis by (auto simp: set_pc_def upd_worker_def split: if_splits)
  next
    case False
    then show ?thesis using list_all2_lengthD [OF fire_stays [OF assms(1)]] by simp
  qed
  ultimately show ?thesis using ev by simp
qed

lemma thread_step_left:
  assumes "td_inv r f s" "settled f (Thread_Step ev) s" "thread_step ev s = Some (Inr s')"
  shows "td_inv r f s' \<and> td_left s' < td_left s"
proof -
  obtain d where d: "fire ev (td_sys s) = Some (Inr d)" "s' = s\<lparr>td_sys := d\<rparr>"
    using assms(3) by (auto simp: thread_step_def bindE_Inr_iff split: if_splits)
  have inv: "dl_inv r f (td_sys s)" "ds_ctl (td_sys s) \<in> {CtlStored, CtlAborted}"
    using assms(1) by (simp_all add: td_inv_def)
  note frame = fire_length_ctl [OF d(1) inv(2)]
  have "\<forall>i. ev \<noteq> Close i" using assms(3) by (auto simp: thread_step_def)
  then have "worker_step ev" using frame by blast
  moreover have "potential d + (if worker_step ev then 1 else 0) \<le> potential (td_sys s)"
    by (rule fire_potential [OF inv(1) d(1)]) (use frame assms(2) in auto)
  moreover have "dl_inv r f d"
    using fire_dl_inv [OF inv(1) d(1)] frame assms(2) by (auto split: if_splits)
  ultimately show ?thesis
    using assms(1) d(2) frame by (auto simp: td_inv_def td_left_def split: dtor_pc.splits)
qed

lemma td_step_left:
  assumes "td_inv r f s" "settled f ev s" "td_step cancel ev s = Some (Inr s')"
  shows "td_inv r f s' \<and> td_left s' < td_left s"
proof (cases ev)
  case (Thread_Step e)
  with assms thread_step_left show ?thesis by simp
next
  case (Open_Socket i)
  then have i: "i < length (td_open s)" "\<not> td_open s ! i" "s' = s\<lparr>td_open := (td_open s)[i := True]\<rparr>"
    using assms(3) by (auto simp: open_socket_def split: if_splits)
  have "Suc (length (filter Not ((td_open s)[i := True]))) = length (filter Not (td_open s))"
    by (rule missing_set_True [OF i(1,2)])
  with assms(1) i show ?thesis by (auto simp: td_inv_def td_left_def split: dtor_pc.splits)
next
  case Dtor_Enter
  with assms show ?thesis by (auto simp: td_inv_def td_left_def dtor_left_def split: if_splits)
next
  case Dtor_Step
  then have "dtor_step cancel s = Some (Inr s')" using assms(3) by simp
  then show ?thesis
  proof (cases rule: dtor_step_cases)
    case (close j)
    let ?d = "upd_worker j close_worker (td_sys s)"
    have "potential ?d = potential (td_sys s)"
      by (rule potential_quiet) (simp_all add: upd_worker_def close_worker_def map_pc_upd)
    moreover have "dl_inv r f ?d" using dl_inv_close [of r f "td_sys s" j] assms(1) by (simp add: td_inv_def)
    ultimately show ?thesis
      using assms(1) close by (auto simp: td_inv_def td_left_def dtor_left_def upd_worker_def)
  qed (use assms(1) in \<open>auto simp: td_inv_def td_left_def dtor_left_def\<close>)
qed

lemma td_events_left:
  assumes "td_inv r f s" "td_events_under cancel (settled f) evs s = Some s'"
  shows "td_inv r f s' \<and> td_left s' + length evs \<le> td_left s"
  using assms
proof (induction evs arbitrary: s)
  case (Cons ev evs)
  then obtain s1 where s1: "td_step cancel ev s = Some (Inr s1)" "settled f ev s"
      "td_events_under cancel (settled f) evs s1 = Some s'"
    by (auto split: option.splits sum.splits if_splits)
  note left = td_step_left [OF Cons.prems(1) s1(2,1)]
  from Cons.IH [OF conjunct1 [OF left] s1(3)] conjunct2 [OF left] show ?case by simp
qed simp

text \<open>A thread that is not at rest can go on: it opens its socket, connects, or takes a step.\<close>

lemma settled_can_step:
  assumes "td_inv r f s" "i < length (td_open s)" "\<not> at_rest (w_pc (ds_workers (td_sys s) ! i))"
  shows "\<exists>ev. settled f ev s \<and> td_step cancel ev s \<noteq> None"
proof (cases "w_pc (ds_workers (td_sys s) ! i) = Connecting")
  case True
  then have at: "at_pc (td_sys s) i Connecting" using assms(1,2) by (simp add: at_pc_def td_inv_def)
  show ?thesis
  proof (cases "td_open s ! i")
    case True
    with at assms(2) show ?thesis
      by (intro exI [of _ "Thread_Step (Connected i)"]) (simp add: thread_step_def)
  next
    case False
    with at assms(2) show ?thesis by (intro exI [of _ "Open_Socket i"]) (simp add: open_socket_def)
  qed
next
  case False
  have i: "i < length (ds_workers (td_sys s))" using assms(1,2) by (simp add: td_inv_def)
  have go: ?thesis if "fire ev (td_sys s) \<noteq> None" "honest f ev (td_sys s)" "not_spurious ev"
      "\<forall>j. ev \<noteq> Close j" "\<forall>j. ev \<noteq> Connected j" for ev
    using that by (intro exI [of _ "Thread_Step ev"]) (auto simp: thread_step_def split: dl_event.split)
  show ?thesis
  proof (cases "w_pc (ds_workers (td_sys s) ! i)")
    case (Downloading n)
    with i go [of "Receive i (file_block f (unat n))"] show ?thesis by (simp add: length_file_block)
  next
    case LoopHead with i go [of "Loop_Test i"] show ?thesis by (simp add: at_pc_def)
  next
    case GetCheck with i go [of "Get_Check i"] show ?thesis by (simp add: at_pc_def)
  next
    case GetScan with i go [of "Get_Scan i"] show ?thesis by (simp add: at_pc_def)
  next
    case (Assigned n) with i go [of "Own i"] show ?thesis by simp
  next
    case (Storing n) with i go [of "Set_Segment i"] show ?thesis by simp
  next
    case Failing with i go [of "Terminate i"] show ?thesis by (simp add: at_pc_def)
  qed (use False assms(3) in \<open>simp_all add: at_rest_def\<close>)
qed

lemma potential_bound:
  assumes "dl_inv r f s"
  shows "potential s \<le> 6 * Suc (length (ds_workers s)) * unat (calc_segments_count r) + 13 * length (ds_workers s)"
proof -
  have "rank ws \<le> 13 * length ws" for ws
  proof (induction ws)
    case (Cons w ws)
    have "pot (w_pc w) \<le> 13" by (cases "w_pc w") simp_all
    with Cons show ?case by (simp add: rank_def)
  qed (simp add: rank_def)
  moreover have "missing (ds_cr s) \<le> unat (calc_segments_count r)"
    using assms length_filter_le [of Not "completed_segments (ds_cr s)"]
    by (simp add: missing_def dl_inv_def segments_ok_def cr_ok_def seg_count_def)
  ultimately show ?thesis
    unfolding potential_def by (intro add_mono mult_le_mono2) simp_all
qed

text \<open>C34: The destructor comes to an end, or it waits for a thread that nobody will wake. After a
  download without timeouts the steps of the destructor and of all threads together are bounded
  by the number of segments and workers, whatever their order, and whichever sockets were open at
  the start; and when no further step is possible, the destructor has returned or a worker thread
  waits on the condition variable of the resource (\<open>waits_forever\<close> shows that this happens).
  A thread that is still connecting or receiving never makes it hang.\<close>

theorem destructor_comes_to_rest:
  assumes "run_under (\<lambda>e s. no_timeout e s \<and> honest f e s) (init_download r hs (map DownloadWorker_new ps)) d"
    and "ds_ctl d \<in> {CtlStored, CtlAborted}" "length opened = length (ds_workers d)"
    and "td_events_under cancel (settled f) evs \<lparr>td_sys = d, td_open = opened, td_pc = Dtor_Closing 0\<rparr> = Some s"
  shows "length evs \<le> 6 * Suc (length (ds_workers d)) * unat (calc_segments_count r) + 16 * length (ds_workers d) + 2 \<and>
    ((\<forall>ev. settled f ev s \<longrightarrow> td_step cancel ev s = None) \<longrightarrow>
       td_pc s = Dtor_Done \<or> (\<exists>i. at_pc (td_sys s) i Waiting))"
proof -
  let ?s0 = "\<lparr>td_sys = d, td_open = opened, td_pc = Dtor_Closing 0\<rparr>"
  have inv: "dl_inv r f d" by (rule run_under_no_timeout_inv [OF assms(1)])
  then have "td_inv r f ?s0" using assms(2,3) by (simp add: td_inv_def)
  from td_events_left [OF this assms(4)] have s: "td_inv r f s" "length evs \<le> td_left ?s0" by simp_all
  have "length (filter Not opened) \<le> length opened" by (rule length_filter_le)
  with potential_bound [OF inv] assms(3) s(2)
  have "length evs \<le> 6 * Suc (length (ds_workers d)) * unat (calc_segments_count r) + 16 * length (ds_workers d) + 2"
    by (simp add: td_left_def dtor_left_def)
  moreover have "td_pc s = Dtor_Done \<or> (\<exists>i. at_pc (td_sys s) i Waiting)"
    if stuck: "\<forall>ev. settled f ev s \<longrightarrow> td_step cancel ev s = None"
  proof (cases "td_pc s")
    case (Dtor_Joining j)
    have "dtor_step cancel s = None" using stuck [THEN spec, of Dtor_Step] by simp
    with Dtor_Joining have j: "j < length (ds_workers (td_sys s))" "w_pc (ds_workers (td_sys s) ! j) \<notin> {Finished, Failed}"
      by (auto simp: dtor_step_defs split: if_splits)
    have "j < length (td_open s)" using j(1) s(1) by (simp add: td_inv_def)
    then have "at_rest (w_pc (ds_workers (td_sys s) ! j))"
      using settled_can_step [OF s(1), of j cancel] stuck by metis
    with j have "at_pc (td_sys s) j Waiting" by (auto simp: at_rest_def at_pc_def)
    then show ?thesis by blast
  next
    case Dtor_Pending
    with stuck [THEN spec, of Dtor_Enter] s(1) show ?thesis by (auto simp: td_inv_def)
  next
    case (Dtor_Closing j)
    with stuck [THEN spec, of Dtor_Step] show ?thesis by (simp add: dtor_step_defs split: if_splits)
  qed simp
  ultimately show ?thesis by blast
qed

section \<open>Concrete runs\<close>

text \<open>The destructor closes the worker of an empty download while its thread is connecting.\<close>

theorem closing_unconnected_worker_witness:
  "\<exists>s. td_run Not (td_start (init_download (Resource_new ''XD'' 0 default_path) (\<lambda>_. Host_new 0 (0 :: nat))
      (map DownloadWorker_new [0]))) s \<and>
    td_step Not Dtor_Step s = Some (Inl UncaughtException)"
proof -
  let ?r = "Resource_new ''XD'' 0 default_path"
  let ?d = "init_download ?r (\<lambda>_. Host_new 0 (0 :: nat)) (map DownloadWorker_new [0])"
  let ?s1 = "td_start ?d\<lparr>td_sys := ?d\<lparr>ds_ctl := CtlStored, ds_stored := Some []\<rparr>\<rparr>"
  let ?s2 = "?s1\<lparr>td_pc := Dtor_Closing 0\<rparr>"
  have n: "calc_segments_count ?r = 0" "res_size ?r = 0"
    by (simp_all add: Resource_new_def calc_segments_count_def)
  have "td_step Not (Thread_Step (Tick 0)) (td_start ?d) = Some (Inr ?s1)"
    using n by (simp add: td_start_def init_download_def thread_step_def tick_step_def is_completed_def
        CompleteResource_new_def file_contents_def mem_range_def)
  from td_run.step [OF td_run.start this] have "td_run Not (td_start ?d) ?s1" .
  moreover have "td_step Not Dtor_Enter ?s1 = Some (Inr ?s2)" by (simp add: td_start_def)
  ultimately have run: "td_run Not (td_start ?d) ?s2" by (rule td_run.step)
  have "asio_cancel Not" by (simp add: asio_cancel_def)
  from closing_unconnected_worker [OF this run, of 0] run show ?thesis
    by (intro exI [of _ ?s2]) (simp add: td_start_def init_download_def)
qed

theorem empty_download_race_witness:
  "\<exists>s. td_events Not [Thread_Step (Tick 0), Dtor_Enter]
      (td_start (init_download (Resource_new ''XD'' 0 default_path) (\<lambda>_. Host_new 0 (0 :: nat))
        (map DownloadWorker_new [0, 1]))) = Some (Inr s) \<and>
    td_step Not Dtor_Step s = Some (Inl UncaughtException)"
  using empty_download_race [of Not "Resource_new ''XD'' 0 default_path" "[0, 1]" 0 "\<lambda>_. Host_new 0 (0 :: nat)"]
  by (auto simp: asio_cancel_def Resource_new_def simp del: td_events.simps td_step.simps)

text \<open>After the small download of \<open>Download_Invariant\<close> the destructor can return.\<close>

definition small_end :: "td_event list" where
  "small_end = [Dtor_Step, Dtor_Step, Thread_Step (Loop_Test 0), Dtor_Step, Dtor_Step]"

theorem destructor_comes_to_rest_witness:
  "\<exists>d s. run_under (\<lambda>e s. no_timeout e s \<and> honest small_file e s)
      (init_download small_resource (\<lambda>_. Host_new 0 (0 :: nat)) (map DownloadWorker_new [0])) d \<and>
    td_events_under Not (settled small_file) small_end
      \<lparr>td_sys = d, td_open = [True], td_pc = Dtor_Closing 0\<rparr> = Some s \<and> td_pc s = Dtor_Done \<and>
    length small_end \<le> 30"
proof -
  let ?d0 = "init_download small_resource (\<lambda>_. Host_new 0 (0 :: nat)) (map DownloadWorker_new [0])"
  have n: "calc_segments_count small_resource = 1" "res_size small_resource = 5"
    by (simp_all add: small_resource_def calc_segments_count_def Resource_new_def)
  have "\<exists>d s. run_events (\<lambda>e s. no_timeout e s \<and> honest small_file e s) small_schedule ?d0 = Some d \<and>
      ds_ctl d = CtlStored \<and> length (ds_workers d) = 1 \<and>
      td_events_under Not (settled small_file) small_end
        \<lparr>td_sys = d, td_open = [True], td_pc = Dtor_Closing 0\<rparr> = Some s \<and> td_pc s = Dtor_Done"
    by (simp add: small_schedule_def small_file_def small_end_def init_download_def small_evals n
        dtor_step_defs close_step_def thread_step_def close_worker_def notify_all_def wake_def)
  then obtain d s where d: "run_events (\<lambda>e s. no_timeout e s \<and> honest small_file e s) small_schedule ?d0 = Some d"
      "ds_ctl d = CtlStored" "length (ds_workers d) = 1"
      "td_events_under Not (settled small_file) small_end
        \<lparr>td_sys = d, td_open = [True], td_pc = Dtor_Closing 0\<rparr> = Some s" "td_pc s = Dtor_Done"
    by blast
  from destructor_comes_to_rest [OF run_schedule [OF d(1)] _ _ d(4), THEN conjunct1] d n(1) run_schedule [OF d(1)]
  show ?thesis by auto
qed

end
