(* ===== verification/Split_Requests.thy ===== *)
theory Split_Requests
  imports Download_Service
begin

text \<open>
  What TCP may do to a request: \<open>RequestWorker\<close> asks the socket for at most 300 octets with
  \<open>async_read_some\<close> and ignores \<open>bytes_transferred\<close>, so a request that arrives in two parts is
  parsed twice, each time with what the last read left in the rest of the buffer. On a connection
  on which a segment was served before, the first part is taken for a request of that segment.
\<close>

section \<open>The buffer of a worker\<close>

text \<open>The outcome of a read depends on the buffer it leaves, not on the number of octets.\<close>

lemma handle_read_buffer:
  assumes "bytes @ drop (length bytes) (recv_data w) = bytes' @ drop (length bytes') (recv_data w)"
  shows "handle_read e (Read_Data bytes) w fm = handle_read e (Read_Data bytes') w fm"
  unfolding handle_read_def read_event.case assms ..

lemma read_keeps_request:
  assumes "handle_read e (Read_Data bytes) w fm = Some (Inr (Some w', fm'))"
  shows "recv_data w' = bytes @ drop (length bytes) (recv_data w)"
  using assms by (auto simp: handle_read_def Let_def bindE_Inr_iff split: option.splits sum.splits if_splits prod.splits)

text \<open>Two requests for segments of one file differ in their last two octets only.\<close>

lemma requests_common:
  assumes "serialize_segment_request e cr i = Inr req" "serialize_segment_request e cr j = Inr req'"
    and "header_ok (cr_resource cr)" "k \<le> 265"
  shows "take k req' = take k req" "length req = 267"
proof -
  obtain hdr where hdr: "generate_resource_header e (cr_resource cr) = Inr hdr" "length hdr = 264"
    using length_resource_header [of "cr_resource cr" e] assms(3) by (auto simp: header_ok_def)
  with assms show "take k req' = take k req" "length req = 267"
    by (auto simp: serialize_segment_request_eq take_Cons')
qed

text \<open>A worker that has served segment \<open>i\<close> serves it again when a part of the next request arrives.\<close>

lemma part_served_again:
  assumes w: "serves (res_name r) f w fm" and r: "header_ok r" "cr_resource cr = r"
    and f: "length f = unat (res_size r)" "unat (res_size r) < 2 ^ 26"
    and i: "unat i < unat (calc_segments_count r)"
    and req: "serialize_segment_request e cr i = Inr req" "serialize_segment_request e cr j = Inr req'"
    and k: "k \<le> 265"
  obtains w1 fm1 w2 w3 fm3 where "handle_read e' (Read_Data req) w fm = Some (Inr (Some w1, fm1))"
    "handle_write False w1 = Inr (Some w2)"
    "handle_read e' (Read_Data (take k req')) w2 fm1 = Some (Inr (Some w3, fm3))"
    "rw_pending w3 = Writing (Some (map Some (file_block f (unat i))))"
proof -
  obtain w1 fm1 where w1: "handle_read e' (Read_Data req) w fm = Some (Inr (Some w1, fm1))"
      "serves (res_name r) f w1 fm1"
    using serve_one [OF w r f i req(1), of e'] by blast
  let ?w2 = "w1\<lparr>rw_pending := Reading\<rparr>"
  have "serves (res_name r) f ?w2 fm1" using w1(2) by (simp add: serves_def)
  from serve_one [OF this r f i req(1), of e'] obtain w3 fm3 where
      w3: "handle_read e' (Read_Data req) ?w2 fm1 = Some (Inr (Some w3, fm3))"
      "rw_pending w3 = Writing (Some (map Some (file_block f (unat i))))" by blast
  note same = requests_common [OF req _ k]
  have "handle_read e' (Read_Data (take k req')) ?w2 fm1 = handle_read e' (Read_Data req) ?w2 fm1"
    by (rule handle_read_buffer)
      (use read_keeps_request [OF w1(1)] same k r in \<open>simp add: append_assoc [symmetric] del: append_assoc\<close>)
  with that [OF w1(1) _ _ w3(2), of ?w2] w3(1) show thesis by (simp add: handle_write_def)
qed

section \<open>The wrong segment\<close>

text \<open>What a worker does with a reply, whatever it holds: it is stored as the segment asked for.\<close>

lemma reply_completes:
  assumes "dl_inv r f d" "l < length (ds_workers d)" "w_pc (ds_workers d ! l) = Downloading j"
    and "length bs = SEGMENT_SIZE"
  obtains d1 d2 where "fire (Receive l bs) d = Some (Inr d1)" "fire (Set_Segment l) d1 = Some (Inr d2)"
    "completed_segments (ds_cr d2) ! unat j" "segment_block (ds_cr d2) (unat j) = map Some bs"
proof -
  have "held (w_pc (ds_workers d ! l)) = Some j" by (simp add: assms(3))
  with assms(1,2) have j: "unat j < seg_count (ds_cr d)" and cr: "cr_ok (ds_cr d)"
    by (auto simp: dl_inv_def workers_ok_def held_ok_def segments_ok_def)
  have "length (segment_block (ds_cr d) (unat j)) \<le> length bs" using assms(4) by (simp add: segment_block_def)
  then obtain cr1 where cr1: "write_data (segment_at j) bs (ds_cr d) = Inr cr1" "cr_ok cr1"
      "seg_count cr1 = seg_count (ds_cr d)" "segment_block cr1 (unat j) = map Some bs"
    using write_block [OF cr j, of bs] assms(4) j by force
  let ?d1 = "upd_worker l (\<lambda>w. w\<lparr>w_timeouted := False, w_pc := Storing j\<rparr>) (d\<lparr>ds_cr := cr1\<rparr>)"
  have 1: "fire (Receive l bs) d = Some (Inr ?d1)"
    using assms(2-4) cr1(1) by (simp add: receive_step_def)
  have "set_segment j cr1 = Inr (completed_counter cr1 + 1 = calc_segments_count (cr_resource cr1),
      cr1\<lparr>busy_segments := (busy_segments cr1)[unat j := False],
        completed_segments := (completed_segments cr1)[unat j := True],
        completed_counter := completed_counter cr1 + 1\<rparr>)"
    using set_segment_ok [OF cr1(2), of "unat j"] cr1(3) j by simp
  then have "\<exists>d2. fire (Set_Segment l) ?d1 = Some (Inr d2) \<and>
      completed_segments (ds_cr d2) = (completed_segments cr1)[unat j := True] \<and> cr_data (ds_cr d2) = cr_data cr1"
    using assms(2) by (auto simp: upd_worker_def set_segment_step_def set_pc_def)
  moreover have "unat j < length (completed_segments cr1)" using cr1(2,3) j by (simp add: cr_ok_def)
  ultimately show thesis using that [OF 1] cr1(4) by (auto simp: segment_block_def)
qed

text \<open>C31: A request that TCP delivers in two parts spoils the file. Take a download without timeouts and
  with correct replies so far, a worker of it that has had segment \<open>i\<close> and asks for segment \<open>j\<close>, and
  the \<open>RequestWorker\<close> of a peer that has the file, at the other end of the connection. If no more
  than 265 of the 267 octets of the second request arrive at first, the peer answers with segment
  \<open>i\<close> once more, the worker stores it as segment \<open>j\<close>, and that segment counts as completed.\<close>

theorem split_request_spoils_file:
  assumes "run_under (\<lambda>e s. no_timeout e s \<and> honest f e s) (init_download r hs (map DownloadWorker_new ps)) d"
    and "l < length (ds_workers d)" "w_pc (ds_workers d ! l) = Downloading j"
    and "serves (res_name r) f w fm" "header_ok r" "length f = unat (res_size r)" "unat (res_size r) < 2 ^ 26"
    and "unat i < unat (calc_segments_count r)" "k \<le> 265"
    and "request_segment True e (ds_cr d) i = Inr (Some req)" "request_segment True e (ds_cr d) j = Inr (Some req')"
  shows "\<exists>w1 fm1 w2 w3 fm3 d1 d2.
    handle_read e' (Read_Data req) w fm = Some (Inr (Some w1, fm1)) \<and> handle_write False w1 = Inr (Some w2) \<and>
    handle_read e' (Read_Data (take k req')) w2 fm1 = Some (Inr (Some w3, fm3)) \<and>
    rw_pending w3 = Writing (Some (map Some (file_block f (unat i)))) \<and>
    fire (Receive l (file_block f (unat i))) d = Some (Inr d1) \<and> fire (Set_Segment l) d1 = Some (Inr d2) \<and>
    completed_segments (ds_cr d2) ! unat j \<and>
    segment_block (ds_cr d2) (unat j) = map Some (file_block f (unat i))"
proof -
  have inv: "dl_inv r f d" by (rule run_under_no_timeout_inv [OF assms(1)])
  then have cr: "cr_resource (ds_cr d) = r" by (simp add: dl_inv_def)
  obtain w1 fm1 w2 w3 fm3 where w: "handle_read e' (Read_Data req) w fm = Some (Inr (Some w1, fm1))"
      "handle_write False w1 = Inr (Some w2)"
      "handle_read e' (Read_Data (take k req')) w2 fm1 = Some (Inr (Some w3, fm3))"
      "rw_pending w3 = Writing (Some (map Some (file_block f (unat i))))"
    by (rule part_served_again [OF assms(4,5) cr assms(6-8) assms(10,11) [unfolded request_segment_sent] assms(9)])
  have "length (file_block f (unat i)) = SEGMENT_SIZE" by (simp add: length_file_block)
  from reply_completes [OF inv assms(2,3) this] w show ?thesis by metis
qed

text \<open>A file of two segments, the first of which is stored twice.\<close>

definition two_resource :: Resource where
  "two_resource = Resource_new ''two'' 2048 default_path"

definition two_file :: "Uint8 list" where
  "two_file = replicate 1024 7 @ replicate 1024 8"

definition first_segment :: "dl_event list" where
  "first_segment = [Connected 0, Loop_Test 0, Get_Check 0, Get_Scan 0, Own 0,
     Receive 0 (file_block two_file 0), Set_Segment 0, Loop_Test 0, Get_Check 0, Get_Scan 0, Own 0]"

lemma spoiled_run:
  "\<exists>d d1 d2 d3. run_events (\<lambda>e s. no_timeout e s \<and> honest two_file e s) first_segment
      (init_download two_resource (\<lambda>_. Host_new 0 (0 :: nat)) (map DownloadWorker_new [0])) = Some d \<and>
    0 < length (ds_workers d) \<and> w_pc (ds_workers d ! 0) = Downloading 1 \<and> cr_resource (ds_cr d) = two_resource \<and>
    fire (Receive 0 (file_block two_file 0)) d = Some (Inr d1) \<and> fire (Set_Segment 0) d1 = Some (Inr d2) \<and>
    fire (Tick 0) d2 = Some (Inr d3) \<and> ds_stored d3 = Some (map Some (replicate 2048 7))"
proof -
  have n: "calc_segments_count two_resource = 2" "res_size two_resource = 2048"
    by (simp_all add: two_resource_def calc_segments_count_def Resource_new_def)
  have lists: "[0 ..< 2] = [0, 1]" "\<And>x. replicate 2 x = [x, x]" by (simp_all add: upt_rec numeral_2_eq_2)
  show ?thesis
    by (simp add: first_segment_def two_file_def n lists init_download_def small_evals notify_all_def wake_def
        replicate_add [symmetric])
qed

theorem split_request_spoils_file_witness:
  "\<exists>d req req' w fm w1 fm1 w2 w3 fm3 d1 d2 d3.
    run_under (\<lambda>e s. no_timeout e s \<and> honest two_file e s)
      (init_download two_resource (\<lambda>_. Host_new 0 (0 :: nat)) (map DownloadWorker_new [0])) d \<and>
    request_segment True Little (ds_cr d) 0 = Inr (Some req) \<and>
    request_segment True Little (ds_cr d) 1 = Inr (Some req') \<and>
    handle_read Big (Read_Data req) w fm = Some (Inr (Some w1, fm1)) \<and> handle_write False w1 = Inr (Some w2) \<and>
    handle_read Big (Read_Data (take 100 req')) w2 fm1 = Some (Inr (Some w3, fm3)) \<and>
    rw_pending w3 = Writing (Some (map Some (file_block two_file 0))) \<and>
    fire (Receive 0 (file_block two_file 0)) d = Some (Inr d1) \<and> fire (Set_Segment 0) d1 = Some (Inr d2) \<and>
    fire (Tick 0) d2 = Some (Inr d3) \<and> ds_stored d3 = Some (map Some (replicate 2048 7))"
proof -
  obtain d d1 d2 d3 where
      d: "run_events (\<lambda>e s. no_timeout e s \<and> honest two_file e s) first_segment
        (init_download two_resource (\<lambda>_. Host_new 0 (0 :: nat)) (map DownloadWorker_new [0])) = Some d"
      "0 < length (ds_workers d)" "w_pc (ds_workers d ! 0) = Downloading 1" "cr_resource (ds_cr d) = two_resource"
    and t: "fire (Receive 0 (file_block two_file 0)) d = Some (Inr d1)" "fire (Set_Segment 0) d1 = Some (Inr d2)"
      "fire (Tick 0) d2 = Some (Inr d3)" "ds_stored d3 = Some (map Some (replicate 2048 7))"
    using spoiled_run by blast
  have r: "header_ok two_resource" "length two_file = unat (res_size two_resource)"
      "unat (res_size two_resource) < 2 ^ 26" "unat (0 :: SegmentId) < unat (calc_segments_count two_resource)"
    by (simp_all add: two_resource_def two_file_def Resource_new_def header_ok_def nul_free_def calc_segments_count_def)
  have "\<exists>req. request_segment True Little (ds_cr d) i = Inr (Some req)" for i
    using header.enc_width [OF r(1), of Little] d(4)
    by (auto simp: request_segment_sent serialize_segment_request_def)
  then obtain req req' where req: "request_segment True Little (ds_cr d) 0 = Inr (Some req)"
      "request_segment True Little (ds_cr d) 1 = Inr (Some req')" by blast
  let ?w = "snd (start True (RequestWorker_new []))" and ?fm = "FileManager_new [res_name two_resource \<mapsto> two_file]"
  have s: "serves (res_name two_resource) two_file ?w ?fm"
    by (rule started_worker_serves) (simp_all add: FileManager_new_def write_locked_def read_locked_def)
  have "(100 :: nat) \<le> 265" by simp
  from split_request_spoils_file [OF run_schedule [OF d(1)] d(2,3) s r this req, of Big]
    run_schedule [OF d(1)] req t
  show ?thesis unfolding unat_0 by blast
qed

end
