(* ===== verification/Component_Logs.thy ===== *)
theory Component_Logs
  imports Main_Program Download_Types "HOL-Library.Sublist"
begin

text \<open>
  What the components write to the log. Each definition gives the lines one operation passes to
  \<open>add_log_line\<close>, in order, on the arguments and in the state its model is applied to; an
  operation that faults or waits has logged what precedes that point. The log of the TCP
  side is shown to tell what happened.
\<close>

section \<open>The file manager\<close>

definition quoted :: "string \<Rightarrow> string" where
  "quoted name = [CHR 0x27] @ name @ [CHR 0x27]"

definition segment_read_line :: string where
  "segment_read_line = ''FileManager: segment successfully read from the physical file''"

text \<open>\<open>get_segment\<close>; the stream converts to false when its \<open>failbit\<close> is set.\<close>

definition eof_line :: string where
  "eof_line = ''FileManager: EOF read! (Did you try to read the last segment and forgot'' @ endl @
     ''to calculate its size?)'' @ endl @ ''  Segment reading FAILED''"

definition get_segment_log ::
    "string \<Rightarrow> Uint16 \<Rightarrow> Uint8 option list option \<Rightarrow> nat \<Rightarrow> FileManager \<Rightarrow> string list" where
  "get_segment_log name segment buf requested_size fm =
     (case buf of
        None \<Rightarrow> [''FileManager: ptr to 'result' buffer passed as parameter is null!'' @ endl @
                  ''  Segment reading FAILED'']
      | Some data \<Rightarrow>
          if requested_size > SEGMENT_SIZE
          then [''FileManager: requested segment size > typical segment size (must be <=)!'' @ endl @
                 ''  Segment reading FAILED'']
          else (case find_open name fm of
            None \<Rightarrow> []
          | Some file_ptr \<Rightarrow>
              if \<not> is_open (stream file_ptr)
              then [''FileManager::get_segment(): file not rlocked! (Call read_lock() first)'' @ endl @
                     ''  Segment reading FAILED'']
              else
                let pos = unat segment * SEGMENT_SIZE;
                    st = seekg pos (stream file_ptr)
                in if tellg st \<noteq> int pos
                   then [''FileManager: [BUG] Reading position not set to the begging of the requested segment!'' @
                          endl @ ''  Segment reading FAILED'']
                   else
                     let (bs, st) = read_stream (case fm_disk fm name of Some c \<Rightarrow> c | None \<Rightarrow> [])
                                      requested_size st;
                         note_line = ''FileManager: [note] requested segment size < typical segment size. '' @
                           ''It must be the last segment of the file'';
                         success = [segment_read_line] @
                           (if requested_size < SEGMENT_SIZE then [note_line] else [])
                     in if failbit st
                        then if eofbit st \<and> \<not> failbit st then [eof_line] @ success
                             else [''FileManager: ERROR reading the segment from the physical file!'']
                        else success))"

definition read_lock_log :: "string \<Rightarrow> FileManager \<Rightarrow> string list" where
  "read_lock_log name fm =
     (if find_open name fm \<noteq> None then []
      else if failbit (open_stream (fm_disk fm) name)
      then [''FileManager: ERROR opening file: '' @ quoted name @ '' for reading!'']
      else [''FileManager: file: '' @ quoted name @ '' successfully opened for reading''])"

text \<open>\<open>read_unlock\<close>: the flag \<open>erased\<close> is never set; the loop faults when it finds the file.\<close>

definition read_unlock_log :: "string \<Rightarrow> FileManager \<Rightarrow> string list" where
  "read_unlock_log name fm =
     (case read_unlock name fm of
        Inl _ \<Rightarrow> []
      | Inr _ \<Rightarrow> [''FileManager: could not close file: '' @ quoted name @
                   '' for reading as it had not been opened for reading!''])"

text \<open>\<open>store_resource\<close>, with the parameters of its model.\<close>

definition stored_line :: "string \<Rightarrow> string" where
  "stored_line name = ''FileManager: file: '' @ quoted name @ '' successfully stored on disc''"

definition store_resource_log :: "bool \<Rightarrow> nat \<Rightarrow> CompleteResource \<Rightarrow> FileManager \<Rightarrow> string list" where
  "store_resource_log created room cr fm =
     (let name = res_name (cr_resource cr)
      in case write_lock name fm of
           None \<Rightarrow> []
         | Some _ \<Rightarrow>
             if \<not> created
             then [''FileManager: opening file: '' @ quoted name @ '' for writing (creating it) FAILED!'' @ endl @
                    ''  File storing FAILED'']
             else (case file_contents cr of
                     Inl _ \<Rightarrow> []
                   | Inr data \<Rightarrow>
                       if room < length data
                       then [''FileManager: ERROR storing the file: '' @ quoted name @ '' on disc!'']
                       else [stored_line name]))"

section \<open>The TCP side\<close>

definition deletion :: string where
  "deletion = ''Deleting RequestWorker object''"

definition deleting :: "string \<Rightarrow> string" where
  "deleting what = what @ deletion"

definition handle_read_log ::
    "endian \<Rightarrow> bool \<Rightarrow> read_event \<Rightarrow> RequestWorker \<Rightarrow> FileManager \<Rightarrow> string list" where
  "handle_read_log e disconnected ev w fm =
     (case ev of
        Read_Error \<Rightarrow>
          [if disconnected then deleting ''RequestWorker: Disconnected. ''
           else deleting ''RequestWorker: ERROR reading data from the client! '']
      | Read_Data bytes \<Rightarrow>
          (let (command, file_name, file_size, segment) =
                 parse_request e (bytes @ drop (length bytes) (recv_data w));
               of_segment = decimal (unat segment) @ '' of file: '' @ quoted file_name
           in if command = REQ_SEGMENT
              then [''RequestWorker: request for segment '' @ of_segment @ '' received''] @
                (case requested_segment_size file_size segment of
                   Inl _ \<Rightarrow> []
                 | Inr count \<Rightarrow>
                     (case read_lock file_name fm of
                        None \<Rightarrow> []
                      | Some (_, fm1) \<Rightarrow>
                          read_lock_log file_name fm @
                          (case send_buffer w of
                             Inl _ \<Rightarrow> []
                           | Inr buf \<Rightarrow>
                               get_segment_log file_name segment buf (unat count) fm1 @
                               (case get_segment file_name segment buf (unat count) fm1 of
                                  Inl _ \<Rightarrow> []
                                | Inr (ok, _) \<Rightarrow>
                                    [if \<not> ok
                                     then deleting ''RequestWorker: getting the requested segment from file manager FAILED. ''
                                     else ''RequestWorker: sending segment '' @ of_segment @ ''...'']))))
              else if command = QUIT_CONN
              then [deleting ''RequestWorker: client requested a connection quit. ''] @
                read_unlock_log file_name fm
              else []))"

definition handle_write_log :: "bool \<Rightarrow> string list" where
  "handle_write_log error =
     [if \<not> error then ''RequestWorker: segment successfully sent''
      else deleting ''RequestWorker: ERROR sending a segment! '']"

definition start_log :: "bool \<Rightarrow> string list" where
  "start_log memory =
     [if \<not> memory
      then ''RequestWorker::start(): allocating memory for a segment to be sent FAILED! '' @
        ''(malloc returned nullptr) Throwing '' @ replicate 17 (CHR 0x09) @ ''   exception...''
      else ''RequestWorker successfully started'']"

definition handle_accept_log :: "bool \<Rightarrow> bool \<Rightarrow> string list" where
  "handle_accept_log error allocated =
     (if \<not> error
      then [''RequestServer: successful asynchronous accept''] @ start_log allocated @
        (if \<not> allocated then [deleting ''RequestServer: exception caught from RequestWorker::start()! ''] else [])
      else [''RequestServer: ERROR asynchronously accepting''])"

definition init2_log :: "string list" where
  "init2_log = [''RequestServer initialized'']"

text \<open>
  The thread of the module, which logs its initialization when \<open>io_service.run\<close> has
  returned, or the exception that ended it.
\<close>

definition RequestServerModule_log :: "bool \<Rightarrow> string option \<Rightarrow> string list" where
  "RequestServerModule_log server_created thrown =
     (if server_created then init2_log else []) @
     (case thrown of
        None \<Rightarrow> [''RequestServerModule successfully initialized'']
      | Some what \<Rightarrow> [''RequestServerModule: caught exception while initializing:'' @ endl @ what])"

section \<open>The UDP side\<close>

text \<open>A completed send, a revocation, and one turn of the loop of \<open>fire_beacon\<close> per datagram.\<close>

definition write_handler_log :: "nat \<Rightarrow> string list" where
  "write_handler_log bytes_transferred = [''sent : '' @ decimal bytes_transferred @ '' bytes over UDP'']"

definition write_callback_log :: "bool \<Rightarrow> send_end \<Rightarrow> nat \<Rightarrow> string list" where
  "write_callback_log alive ended bytes_transferred =
     (if alive \<and> ended \<noteq> Send_Aborted then write_handler_log bytes_transferred else [])"

definition revoke_file_log :: "string list" where
  "revoke_file_log = [''prepared : revoke over UDP'']"

function beacon_log :: "Uint8 list list \<Rightarrow> string list" where
  "beacon_log headers =
     (let i = (if length headers \<ge> BEACON_MAX_COUNT then BEACON_MAX_COUNT else length headers)
      in if i > 0
         then [''prepared : advertisement over UDP''] @
           (let rest = take (length headers - i) headers in if rest = [] then [] else beacon_log rest)
         else [])"
  by pat_completeness auto
termination
  by (relation "measure length") (auto simp: Let_def split: if_splits)

declare beacon_log.simps [simp del]

definition handle_receive_log ::
    "('ip \<Rightarrow> string) \<Rightarrow> 'ip recv_event \<Rightarrow> nat \<Rightarrow> Udp_Server \<times> 'ip database \<Rightarrow> string list" where
  "handle_receive_log to_string ev bytes_transferred = (\<lambda>(srv, db).
     (case ev of
        Receive_Error \<Rightarrow> []
      | Received ip bytes \<Rightarrow>
          (let buf = fill_buffer bytes (recv_buffer srv);
               from_line = decimal bytes_transferred @ '' bytes over UDP'' @ endl @ '' from : '' @ to_string ip
           in case deref_host db (get_localhost db) of
                Inl _ \<Rightarrow> []
              | Inr me \<Rightarrow>
                  if host_ip me \<noteq> ip
                  then if buf ! 0 = FILE_LIST then [''received (files beacon) : '' @ from_line]
                       else if buf ! 0 = REVOKE then [''received (revocation) : '' @ from_line]
                       else []
                  else [])))"

section \<open>The download worker\<close>

text \<open>
  The lines of a worker's thread, by the step in which it writes them. \<open>show\<close> is
  \<open>operator<<\<close> of an endpoint and \<open>what\<close> the text of the exception.
\<close>

definition get_log_header :: "('ip \<times> Uint16 \<Rightarrow> string) \<Rightarrow> Resource \<Rightarrow> 'ip Host \<Rightarrow> SegmentId \<Rightarrow> string" where
  "get_log_header show r h i =
     ''Download worker'' @ ''; Resource: '' @ res_name r @ ''; Host '' @ show (get_endpoint h) @
     ''; Segment: '' @ decimal (unat i) @ ''; Message: ''"

definition log_timeout :: "('ip \<times> Uint16 \<Rightarrow> string) \<Rightarrow> Resource \<Rightarrow> 'ip Host \<Rightarrow> SegmentId \<Rightarrow> string" where
  "log_timeout show r h i = get_log_header show r h i @ ''timeout''"

definition log_start_downloading ::
    "('ip \<times> Uint16 \<Rightarrow> string) \<Rightarrow> Resource \<Rightarrow> 'ip Host \<Rightarrow> SegmentId \<Rightarrow> string" where
  "log_start_downloading show r h i = get_log_header show r h i @ ''segment downloading started''"

definition log_finish_downloading ::
    "('ip \<times> Uint16 \<Rightarrow> string) \<Rightarrow> Resource \<Rightarrow> 'ip Host \<Rightarrow> SegmentId \<Rightarrow> string" where
  "log_finish_downloading show r h i = get_log_header show r h i @ ''segment downloading finished''"

definition connect_failed_line :: "('ip \<times> Uint16 \<Rightarrow> string) \<Rightarrow> string \<Rightarrow> 'ip Host \<Rightarrow> string" where
  "connect_failed_line show what h =
     ''Failed to connect to host: '' @ show (get_endpoint h) @ endl @ '' detailed error: '' @ what @ endl"

definition terminated_line :: "('ip \<times> Uint16 \<Rightarrow> string) \<Rightarrow> string \<Rightarrow> 'ip Host \<Rightarrow> string" where
  "terminated_line show what h =
     ''Download worker terminated, host: '' @ show (get_endpoint h) @ endl @ '' detailed error: '' @ what @ endl"

definition download_failed_line ::
    "('ip \<times> Uint16 \<Rightarrow> string) \<Rightarrow> string \<Rightarrow> Resource \<Rightarrow> 'ip Host \<Rightarrow> SegmentId \<Rightarrow> string result" where
  "download_failed_line show what r h i =
     bindE (failure_message i) (\<lambda>message.
       Inr (message @ endl @ '' of resource: '' @ res_name r @ endl @ '' from host '' @ show (get_endpoint h) @
         endl @ '' detailed error: '' @ what @ endl))"

text \<open>The thread's end without an exception is logged in whichever step it comes.\<close>

definition finished_log :: "nat \<Rightarrow> 'ip dsys result option \<Rightarrow> string list" where
  "finished_log i after =
     (case after of
        Some (Inr s') \<Rightarrow> if at_pc s' i Finished then [''DownloadWorker finished''] else []
      | _ \<Rightarrow> [])"

fun worker_log :: "('ip \<times> Uint16 \<Rightarrow> string) \<Rightarrow> string \<Rightarrow> dl_event \<Rightarrow> 'ip dsys \<Rightarrow> string list" where
  "worker_log show what (Connected i) s = [''new DownloadWorker initiated'']"
| "worker_log show what (Connect_Failed i) s =
     [connect_failed_line show what (ds_hosts s (w_host (ds_workers s ! i)))]"
| "worker_log show what (Loop_Test i) s = finished_log i (fire (Loop_Test i) s)"
| "worker_log show what (Get_Check i) s = finished_log i (fire (Get_Check i) s)"
| "worker_log show what (Get_Scan i) s = finished_log i (fire (Get_Scan i) s)"
| "worker_log show what (Own i) s =
     (case w_pc (ds_workers s ! i) of
        Assigned n \<Rightarrow>
          [log_start_downloading show (cr_resource (ds_cr s)) (ds_hosts s (w_host (ds_workers s ! i))) n]
      | _ \<Rightarrow> [])"
| "worker_log show what (Set_Segment i) s =
     [log_finish_downloading show (cr_resource (ds_cr s)) (ds_hosts s (w_host (ds_workers s ! i)))
        (owned_segment_id (ds_workers s ! i))]"
| "worker_log show what (Receive_Failed i part k) s =
     (case w_pc (ds_workers s ! i) of
        Downloading n \<Rightarrow>
          (case download_failed_line show what (cr_resource (ds_cr s)) (ds_hosts s (w_host (ds_workers s ! i))) n of
             Inl _ \<Rightarrow> []
           | Inr line \<Rightarrow> [line])
      | _ \<Rightarrow> [])"
| "worker_log show what (Terminate i) s =
     [terminated_line show what (ds_hosts s (w_host (ds_workers s ! i)))]"
| "worker_log show what _ s = []"

section \<open>What the log of the TCP side tells\<close>

definition announces_deletion :: "string \<Rightarrow> bool" where
  "announces_deletion line = suffix deletion line"

lemma announces_deletion_deleting [simp]: "announces_deletion (deleting what)"
  by (auto simp: announces_deletion_def deleting_def suffix_def)

lemma ends_otherwise: "last line \<noteq> CHR ''t'' \<Longrightarrow> \<not> announces_deletion line"
  by (auto simp: announces_deletion_def deletion_def suffix_def)

lemma segment_read_not_deleting [simp]: "segment_read_line \<noteq> deleting what"
  using announces_deletion_deleting [of what] ends_otherwise [of segment_read_line]
  by (auto simp: segment_read_line_def)

text \<open>The line for a read past the end is never written: \<open>read\<close> then sets \<open>failbit\<close> too.\<close>

lemma eof_line_never: "eof_line \<notin> set (get_segment_log name segment buf count fm)"
  by (auto simp: get_segment_log_def eof_line_def segment_read_line_def endl_def Let_def
      split: option.splits prod.splits)

lemma get_segment_logged:
  assumes "get_segment name segment buf count fm = Inr (ok, data, fm')"
  shows "segment_read_line \<in> set (get_segment_log name segment buf count fm) \<longleftrightarrow> ok"
    and "\<forall>line \<in> set (get_segment_log name segment buf count fm). \<not> announces_deletion line"
proof -
  show "segment_read_line \<in> set (get_segment_log name segment buf count fm) \<longleftrightarrow> ok"
  proof (cases "buf = None \<or> count > SEGMENT_SIZE")
    case True
    with assms show ?thesis
      by (cases buf) (auto simp: get_segment_log_def get_segment_def segment_read_line_def endl_def)
  next
    case False
    then obtain d where d: "buf = Some d" "\<not> count > SEGMENT_SIZE" by auto
    then obtain f where f: "find_open name fm = Some f"
      using assms by (cases "find_open name fm") (auto simp: get_segment_def of_option_def)
    let ?st = "seekg (unat segment * SEGMENT_SIZE) (stream f)"
    obtain bs st where st: "read_stream (case fm_disk fm name of Some c \<Rightarrow> c | None \<Rightarrow> []) count ?st = (bs, st)"
      by fastforce
    show ?thesis
      using assms d f st
      by (simp add: get_segment_log_def get_segment_def of_option_def Let_def)
        (auto simp: segment_read_line_def endl_def bindE_Inr_iff Let_def split: if_splits)
  qed
  show "\<forall>line \<in> set (get_segment_log name segment buf count fm). \<not> announces_deletion line"
    by (auto simp: get_segment_log_def segment_read_line_def endl_def Let_def ends_otherwise
        split: option.splits prod.splits)
qed

lemma read_lock_not_deletion: "\<forall>line \<in> set (read_lock_log name fm). \<not> announces_deletion line"
  by (simp add: read_lock_log_def ends_otherwise)

lemma read_lock_not_read: "segment_read_line \<notin> set (read_lock_log name fm)"
  by (simp add: read_lock_log_def segment_read_line_def)

text \<open>A segment request that is answered or refused went through the lock and the file.\<close>

lemma segment_request_runs:
  assumes "handle_read e (Read_Data bytes) w fm = Some (Inr (w', fm'))"
    and "parse_request e (bytes @ drop (length bytes) (recv_data w)) = (REQ_SEGMENT, nm, sz, segment)"
  obtains count ok1 fm1 buf ok data fm2 where "requested_segment_size sz segment = Inr count"
    "read_lock nm fm = Some (ok1, fm1)" "send_buffer w = Inr buf"
    "get_segment nm segment buf (unat count) fm1 = Inr (ok, data, fm2)"
    "if ok then \<exists>v. w' = Some v \<and> rw_pending v = Writing data else w' = None"
proof -
  obtain count ok1 fm1 where c: "requested_segment_size sz segment = Inr count"
      "read_lock nm fm = Some (ok1, fm1)"
    using assms by (auto simp: handle_read_def Let_def split: sum.splits option.splits)
  obtain buf where buf: "send_buffer w = Inr buf"
    using assms c by (auto simp: handle_read_def Let_def bindE_Inr_iff send_buffer_def)
  obtain ok data fm2 where g: "get_segment nm segment buf (unat count) fm1 = Inr (ok, data, fm2)"
    using assms c buf by (auto simp: handle_read_def Let_def bindE_Inr_iff send_buffer_def)
  have "if ok then \<exists>v. w' = Some v \<and> rw_pending v = Writing data else w' = None"
    using assms c buf g by (auto simp: handle_read_def Let_def bindE_Inr_iff send_buffer_def split: if_splits)
  with c buf g show thesis by (rule that)
qed

text \<open>The decimal digits in front do not matter: a line is told by its first or last characters.\<close>

lemma handle_read_logged:
  assumes "handle_read e ev w fm = Some (Inr (w', fm'))"
  shows "(w' = None \<longleftrightarrow> (\<exists>line \<in> set (handle_read_log e disc ev w fm). announces_deletion line)) \<and>
    ((\<exists>v b. w' = Some v \<and> rw_pending v = Writing b) \<longleftrightarrow>
       segment_read_line \<in> set (handle_read_log e disc ev w fm)) \<and>
    (handle_read_log e disc ev w fm = [] \<longleftrightarrow> (\<exists>v. w' = Some v \<and> rw_pending v = Nothing))"
proof (cases ev)
  case Read_Error
  with assms show ?thesis
    by (auto simp: handle_read_def handle_read_log_def bindE_Inr_iff)
next
  case (Read_Data bytes)
  let ?recv = "bytes @ drop (length bytes) (recv_data w)"
  obtain command name size segment where parsed: "parse_request e ?recv = (command, name, size, segment)"
    by (metis prod_cases4)
  consider (request) "command = REQ_SEGMENT" | (quit) "command = QUIT_CONN" "command \<noteq> REQ_SEGMENT"
    | (unknown) "command \<noteq> REQ_SEGMENT" "command \<noteq> QUIT_CONN"
    by blast
  then show ?thesis
  proof cases
    case request
    obtain count ok1 fm1 buf ok data fm2 where c: "requested_segment_size size segment = Inr count"
        "read_lock name fm = Some (ok1, fm1)" and buf: "send_buffer w = Inr buf"
      and g: "get_segment name segment buf (unat count) fm1 = Inr (ok, data, fm2)"
      and w': "if ok then \<exists>v. w' = Some v \<and> rw_pending v = Writing data else w' = None"
      by (rule segment_request_runs [OF assms [unfolded Read_Data] parsed [unfolded request]])
    note log = get_segment_logged [OF g] read_lock_not_deletion [of name fm] read_lock_not_read [of name fm]
    let ?of = "decimal (unat segment) @ '' of file: '' @ quoted name"
    let ?first = "''RequestWorker: request for segment '' @ ?of @ '' received''"
    let ?last = "if \<not> ok then deleting ''RequestWorker: getting the requested segment from file manager FAILED. ''
      else ''RequestWorker: sending segment '' @ ?of @ ''...''"
    have lines: "handle_read_log e disc ev w fm = [?first] @ read_lock_log name fm @
        get_segment_log name segment buf (unat count) fm1 @ [?last]"
      using parsed request c buf g unfolding Read_Data handle_read_log_def by (simp add: Let_def)
    have "\<not> announces_deletion ?first" "announces_deletion ?last \<longleftrightarrow> \<not> ok"
      by (simp_all add: ends_otherwise)
    moreover have "segment_read_line \<noteq> ?first" "segment_read_line \<noteq> ?last"
      by (simp_all add: segment_read_line_def deleting_def)
    ultimately show ?thesis
      using w' log unfolding lines by (cases ok) auto
  next
    case quit
    have "segment_read_line \<notin> set (read_unlock_log name fm)"
      by (simp add: read_unlock_log_def segment_read_line_def split: sum.split)
    with quit assms Read_Data parsed show ?thesis
      by (auto simp: handle_read_def handle_read_log_def Let_def bindE_Inr_iff)
  next
    case unknown
    with assms Read_Data parsed show ?thesis
      by (auto simp: handle_read_def handle_read_log_def Let_def segment_read_line_def)
  qed
qed

text \<open>C29: The log of a TCP session tells its outcome. Whatever octets arrive, whatever the name in
  the request: the handler that ends without a fault deletes the worker exactly when one of the
  lines it logs ends in an announcement of the deletion, starts a reply exactly when it logs
  that the segment was read, and logs nothing exactly when the command is unknown and the
  worker is left alive without listening any more.\<close>

theorem request_log_tells_outcome:
  assumes "handle_read e ev w fm = Some (Inr (w', fm'))"
    and "lines = handle_read_log e disconnected ev w fm"
  shows "(w' = None \<longleftrightarrow> list_ex announces_deletion lines) \<and>
    ((\<exists>v reply. w' = Some v \<and> rw_pending v = Writing reply) \<longleftrightarrow> segment_read_line \<in> set lines) \<and>
    (lines = [] \<longleftrightarrow> (\<exists>v. w' = Some v \<and> rw_pending v = Nothing))"
  using handle_read_logged [OF assms(1), of disconnected] assms(2) by (simp add: list_ex_iff)

theorem request_log_tells_outcome_witness:
  "\<exists>w' fm'. handle_read Little (Read_Data [4]) (snd (start True (RequestWorker_new [])))
      (FileManager_new (\<lambda>_. None)) = Some (Inr (w', fm')) \<and> w' = None \<and>
    list_ex announces_deletion (handle_read_log Little False (Read_Data [4])
      (snd (start True (RequestWorker_new []))) (FileManager_new (\<lambda>_. None)))"
proof -
  let ?w = "snd (start True (RequestWorker_new []))" and ?fm = "FileManager_new (\<lambda>_. None)"
  obtain w' fm' where h: "handle_read Little (Read_Data [4]) ?w ?fm = Some (Inr (w', fm'))" "w' = None"
    by (simp add: handle_read_def Let_def parse_request_def read_unlock_def FileManager_new_def start_def
        RequestWorker_new_def RequestWorker_delete_def)
  from request_log_tells_outcome [OF h(1) refl, of False] h show ?thesis by blast
qed

text \<open>A file that was stored completely is reported as stored, and only then.\<close>

lemma store_reported:
  assumes "store_resource junk created room cr fm = Some (Inr fm')" "file_contents cr = Inr data"
  shows "stored_line (res_name (cr_resource cr)) \<in> set (store_resource_log created room cr fm) \<longleftrightarrow>
    created \<and> length data \<le> room"
  using assms
  by (auto simp: store_resource_def store_resource_log_def stored_line_def Let_def split: option.splits if_splits)

text \<open>A beacon logs one line for every datagram.\<close>

lemma beacon_log_length: "length (beacon_log headers) = length (beacon_groups (rev headers))"
proof (induction headers rule: beacon_log.induct)
  case (1 headers)
  show ?case
  proof (cases "headers = []")
    case True
    then show ?thesis by (simp add: beacon_log.simps beacon_groups.simps)
  next
    case False
    let ?i = "if length headers \<ge> BEACON_MAX_COUNT then BEACON_MAX_COUNT else length headers"
    have i: "?i > 0" using False by simp
    have "drop BEACON_MAX_COUNT (rev headers) = rev (take (length headers - ?i) headers)"
      by (simp add: rev_take)
    with 1 [OF refl i refl] False i show ?thesis
      by (subst beacon_log.simps, subst beacon_groups.simps) (simp add: Let_def beacon_groups.simps [of "[]"])
  qed
qed

section \<open>What the log of a download tells\<close>

lemma at_pc_upd_worker:
  "at_pc (upd_worker j f s) i p \<longleftrightarrow>
     (if i = j then i < length (ds_workers s) \<and> w_pc (f (ds_workers s ! j)) = p else at_pc s i p)"
  by (auto simp: at_pc_def upd_worker_def)

lemma at_pc_update [simp]:
  "at_pc (s\<lparr>ds_cr := cr\<rparr>) i p = at_pc s i p"
  "at_pc (s\<lparr>ds_cr := cr, ds_workers := ws\<rparr>) i p = at_pc (s\<lparr>ds_workers := ws\<rparr>) i p"
  "at_pc (s\<lparr>ds_ctl := ctl\<rparr>) i p = at_pc s i p"
  "at_pc (s\<lparr>ds_hosts := hs\<rparr>) i p = at_pc s i p"
  "at_pc (s\<lparr>ds_stored := f\<rparr>) i p = at_pc s i p"
  by (simp_all add: at_pc_def)

lemma woken_finished:
  assumes "list_all2 woken (ds_workers s) ws" "at_pc (s\<lparr>ds_workers := ws\<rparr>) i Finished"
  shows "at_pc s i Finished"
  using assms by (auto simp: at_pc_def list_all2_conv_all_nth woken_def)

lemma set_segment_woken:
  assumes "set_segment_step j n s = Inr s'" "at_pc s' i Finished" "i \<noteq> j"
  shows "at_pc s i Finished"
proof -
  obtain all cr where s': "s' = set_pc j LoopHead (s\<lparr>ds_cr := cr,
      ds_workers := (if all then notify_all (ds_workers s) else ds_workers s)\<rparr>)"
    using assms(1) by (auto simp: set_segment_step_def bindE_Inr_iff)
  have "list_all2 woken (ds_workers s) (if all then notify_all (ds_workers s) else ds_workers s)"
    using notify_all_woken by (simp add: list.rel_refl woken_refl)
  from woken_finished [OF this, of i] assms(2,3) show ?thesis
    by (simp add: s' set_pc_def at_pc_upd_worker)
qed

lemma receive_failed_woken:
  assumes "receive_failed_step j n part k s = Some (Inr s')" "at_pc s' i Finished"
  shows "at_pc s i Finished"
proof -
  obtain ws cr where s': "notify_one k (ds_workers s) = Some ws"
      "s' = set_pc j Failing (s\<lparr>ds_cr := cr, ds_workers := ws\<rparr>)"
    using assms(1) by (auto simp: receive_failed_step_def split: sum.splits)
  from woken_finished [OF notify_one_woken [OF s'(1)], of i] assms(2) show ?thesis
    by (auto simp: s'(2) set_pc_def at_pc_upd_worker split: if_splits)
qed

lemma check_worker_woken:
  assumes "check_worker_step now k j s = Some (Inr s')" "at_pc s' i Finished"
  shows "at_pc s i Finished"
proof -
  let ?ws = "(ds_workers s)[j := (ds_workers s ! j)\<lparr>w_timeouted := True\<rparr>]"
  have "at_pc (s\<lparr>ds_workers := ds_workers s'\<rparr>) i Finished" using assms(2) by (simp add: at_pc_def)
  with woken_finished [of "s\<lparr>ds_workers := ?ws\<rparr>" "ds_workers s'" i] check_worker_workers [OF assms(1)]
  have "at_pc (s\<lparr>ds_workers := ?ws\<rparr>) i Finished" by simp
  then show ?thesis by (cases "i = j") (auto simp: at_pc_def)
qed

lemma thread_finishes:
  assumes "fire e s = Some (Inr s')" "at_pc s' i Finished" "\<not> at_pc s i Finished"
  shows "e = Loop_Test i \<or> e = Get_Check i \<or> e = Get_Scan i"
  using assms(1)
proof (cases rule: fire_cases)
  case (moved j q p)
  from moved(5) assms(2,3) have "i = j" "p = Finished"
    by (auto simp: set_pc_def at_pc_upd_worker split: if_splits)
  with moved(7) show ?thesis by blast
next
  case (scanned j)
  with assms(2,3) show ?thesis
    by (cases "i = j") (auto simp: scan_step_def bindE_Inr_iff set_pc_def at_pc_upd_worker split: if_splits option.splits)
next
  case (stored j n)
  then have n: "set_segment_step j n s = Inr s'" by simp
  then have "at_pc s' j LoopHead \<or> \<not> j < length (ds_workers s')"
    by (auto simp: set_segment_step_def bindE_Inr_iff set_pc_def upd_worker_def at_pc_def)
  with assms(2) have "i \<noteq> j" by (auto simp: at_pc_def)
  with set_segment_woken [OF n assms(2)] assms(3) show ?thesis by blast
next
  case (failed j part k n)
  with assms(2,3) receive_failed_woken show ?thesis by blast
next
  case (checked now k j)
  with assms(2,3) check_worker_woken show ?thesis by blast
next
  case (closed j)
  with assms(2) have "at_pc s i Finished"
    by (cases "i = j") (auto simp: at_pc_def upd_worker_def close_worker_def)
  with assms(3) show ?thesis ..
qed (use assms(2,3) in \<open>auto simp: receive_step_def tick_step_def bindE_Inr_iff set_pc_def at_pc_upd_worker
  split: if_splits\<close>)

text \<open>In every download the lines of a worker name the segment it works on, and its thread
  logs its end when it rests.\<close>

lemma worker_lines:
  assumes "run_under (\<lambda>e s. True) (init_download r hs (map DownloadWorker_new ps)) s"
  shows "at_pc s i (Storing n) \<Longrightarrow> worker_log show what (Set_Segment i) s =
      [log_finish_downloading show r (ds_hosts s (w_host (ds_workers s ! i))) n]"
    and "fire e s = Some (Inr s') \<Longrightarrow> at_pc s' i Finished \<Longrightarrow> \<not> at_pc s i Finished \<Longrightarrow>
      worker_log show what e s = [''DownloadWorker finished'']"
proof -
  have ty: "dl_typed r ps s" by (rule run_typed [OF assms])
  show "worker_log show what (Set_Segment i) s =
      [log_finish_downloading show r (ds_hosts s (w_host (ds_workers s ! i))) n]" if "at_pc s i (Storing n)"
    using typed_worker [OF ty, of i] ty that by (simp add: at_pc_def worker_typed_def dl_typed_def)
  show "worker_log show what e s = [''DownloadWorker finished'']"
    if "fire e s = Some (Inr s')" "at_pc s' i Finished" "\<not> at_pc s i Finished"
    using thread_finishes [OF that] that(1,2) by (auto simp del: fire.simps simp: finished_log_def)
qed

end
