(* ===== verification/Module_Lifetimes.thy ===== *)
theory Module_Lifetimes
  imports Main_Program
begin

text \<open>
  \<^verbatim>\<open>UdpModule.h/.cpp\<close> with the lifetimes of the objects in it, and the thread the command
  \<open>download\<close> starts. \<open>Udp_Module::run_server\<close> creates client and server on the stack of its
  thread and keeps pointers to them in the module; the command line calls \<open>revoke_file\<close> from
  another thread, at any moment. Constructors and \<open>io_service.run\<close> throw when the environment
  says so.
\<close>

section \<open>The UDP module\<close>

text \<open>A member \<open>shared_ptr\<close> that was made from the address of a local variable.\<close>

datatype 'a stack_ptr = Empty | Pointee 'a | Dangling

text \<open>Where the thread of \<open>run_server\<close> is.\<close>

datatype module_pc = Creating_Client | Creating_Server | Running | Ended

record Udp_Module =
  module_thread :: module_pc
  ptr_client :: "Udp_Client stack_ptr"
  ptr_server :: "Udp_Server stack_ptr"

definition Udp_Module_new :: Udp_Module where
  "Udp_Module_new = \<lparr>module_thread = Creating_Client, ptr_client = Empty, ptr_server = Empty\<rparr>"

text \<open>Leaving the block destroys what was created in it; the members keep their pointers.\<close>

fun leave_scope :: "'a stack_ptr \<Rightarrow> 'a stack_ptr" where
  "leave_scope (Pointee _) = Dangling"
| "leave_scope p = p"

definition end_thread :: "Udp_Module \<Rightarrow> Udp_Module" where
  "end_thread m =
     m\<lparr>module_thread := Ended, ptr_client := leave_scope (ptr_client m), ptr_server := leave_scope (ptr_server m)\<rparr>"

text \<open>
  The steps of \<open>run_server\<close>: the two constructors, the handlers that \<open>io_service.run\<close> runs
  (a completed send, the beacon, a datagram), an exception in any of them, which is caught and
  logged, and the return of \<open>run\<close>. \<open>None\<close>: not the thread's turn.
\<close>

datatype 'ip module_event =
    Client_Created
  | Server_Created
  | Write_Done send_end
  | Beacon_Fired "hptr set"
  | Server_Handler "'ip recv_event"
  | Thrown string
  | Returned

fun run_server_step ::
    "endian \<Rightarrow> nat \<Rightarrow> 'ip module_event \<Rightarrow> Udp_Module \<times> 'ip database \<Rightarrow>
     ((Udp_Module \<times> 'ip database) \<times> string list) result option" where
  "run_server_step e now Client_Created (m, db) =
     (if module_thread m = Creating_Client
      then Some (Inr ((m\<lparr>module_thread := Creating_Server,
             ptr_client := Pointee (Udp_Client_new now beacon_interval)\<rparr>, db), []))
      else None)"
| "run_server_step e now Server_Created (m, db) =
     (if module_thread m = Creating_Server
      then Some (Inr ((m\<lparr>module_thread := Running, ptr_server := Pointee Udp_Server_new\<rparr>, db), []))
      else None)"
| "run_server_step e now (Write_Done ended) (m, db) =
     (case (module_thread m, ptr_client m) of
        (Running, Pointee c) \<Rightarrow>
          Some (bindE (client_step (Completed ended) c) (\<lambda>c. Inr ((m\<lparr>ptr_client := Pointee c\<rparr>, db), [])))
      | _ \<Rightarrow> None)"
| "run_server_step e now (Beacon_Fired pinned) (m, db) =
     (case (module_thread m, ptr_client m) of
        (Running, Pointee c) \<Rightarrow>
          Some (bindE (fire_beacon e pinned db c) (\<lambda>(db, c).
            Inr ((m\<lparr>ptr_client := Pointee c\<rparr>, db), [])))
      | _ \<Rightarrow> None)"
| "run_server_step e now (Server_Handler ev) (m, db) =
     (case (module_thread m, ptr_server m) of
        (Running, Pointee srv) \<Rightarrow>
          Some (bindE (handle_receive e ev (srv, db)) (\<lambda>(srv, db).
            Inr ((m\<lparr>ptr_server := Pointee srv\<rparr>, db), [])))
      | _ \<Rightarrow> None)"
| "run_server_step e now (Thrown what) (m, db) =
     (if module_thread m \<noteq> Ended then Some (Inr ((end_thread m, db), [what])) else None)"
| "run_server_step e now Returned (m, db) =
     (if module_thread m = Running then Some (Inr ((end_thread m, db), [])) else None)"

text \<open>\<open>revoke_file\<close> tests only whether \<open>ptr_client\<close> was ever set.\<close>

definition Udp_Module_revoke_file ::
    "endian \<Rightarrow> Resource \<Rightarrow> Udp_Module \<times> 'ip database \<Rightarrow> (Udp_Module \<times> 'ip database) result" where
  "Udp_Module_revoke_file e resource = (\<lambda>(m, db).
     (case ptr_client m of
        Empty \<Rightarrow> Inr (m, db)
      | Pointee client \<Rightarrow>
          bindE (revoke_file e resource client) (\<lambda>client.
          bindE (revoke_resource resource db) (\<lambda>db. Inr (m\<lparr>ptr_client := Pointee client\<rparr>, db)))
      | Dangling \<Rightarrow> Inl DeadObject))"

text \<open>Thread and revocations of the command line in any order.\<close>

inductive module_run :: "endian \<Rightarrow> 'ip database \<Rightarrow> Udp_Module \<times> 'ip database \<Rightarrow> string list \<Rightarrow> bool"
  for e db0 where
  init: "module_run e db0 (Udp_Module_new, db0) []"
| thread: "module_run e db0 s log \<Longrightarrow> run_server_step e now ev s = Some (Inr (s', lines)) \<Longrightarrow>
    module_run e db0 s' (log @ lines)"
| revoke: "module_run e db0 s log \<Longrightarrow> Udp_Module_revoke_file e r s = Inr s' \<Longrightarrow>
    module_run e db0 s' log"

section \<open>Lifetimes\<close>

text \<open>A module as long as its thread has not ended, and after.\<close>

definition module_ok :: "Udp_Module \<Rightarrow> bool" where
  "module_ok m \<longleftrightarrow>
     (case module_thread m of
        Creating_Client \<Rightarrow> ptr_client m = Empty \<and> ptr_server m = Empty
      | Creating_Server \<Rightarrow> (\<exists>c. ptr_client m = Pointee c \<and> client_safe c) \<and> ptr_server m = Empty
      | Running \<Rightarrow> (\<exists>c. ptr_client m = Pointee c \<and> client_safe c) \<and>
          (\<exists>srv. ptr_server m = Pointee srv \<and> length (recv_buffer srv) = UDP_SERV_BUFFER_SIZE)
      | Ended \<Rightarrow> ptr_client m \<in> {Empty, Dangling} \<and> ptr_server m \<in> {Empty, Dangling})"

lemma handle_receive_keeps:
  assumes "handle_receive e ev (srv, db) = Inr (srv', db')" "db_inv db"
    and "length (recv_buffer srv) = UDP_SERV_BUFFER_SIZE"
  shows "db_inv db'" "length (recv_buffer srv') = UDP_SERV_BUFFER_SIZE"
proof -
  have "db_inv db' \<and> length (recv_buffer srv') = UDP_SERV_BUFFER_SIZE"
  proof (cases ev)
    case (Received ip bytes)
    let ?buf = "fill_buffer bytes (recv_buffer srv)"
    have "length ?buf = UDP_SERV_BUFFER_SIZE" using assms(3) by simp
    from handle_datagram_safe [OF assms(2) this, of e ip] show ?thesis
      using assms Received by (auto simp: handle_receive_eq Let_def bindE_Inr_iff split: if_splits)
  qed (use assms in \<open>auto simp: handle_receive_def\<close>)
  then show "db_inv db'" "length (recv_buffer srv') = UDP_SERV_BUFFER_SIZE" by blast+
qed

lemma fire_beacon_keeps:
  assumes "fire_beacon e pinned db c = Inr (db', c')" "db_inv db" "client_safe c"
  shows "db' = db" "client_safe c'"
proof -
  obtain headers c1 where h: "beacon_loop e headers c = Inr c1"
      "db' = db" "c' = c1\<lparr>expires_at := expires_at c1 + unat (beacon_timeout c1)\<rparr>"
    using assms(1,2) by (rule fire_beacon_cases)
  moreover have "client_safe c1" using beacon_loop_safe [OF assms(3), of e headers] h(1) by auto
  ultimately show "db' = db" "client_safe c'" by (simp_all add: client_safe_def)
qed

lemma revoke_file_keeps:
  assumes "revoke_file e r c = Inr c'" "client_safe c"
  shows "client_safe c'"
proof -
  obtain h where "send (REVOKE # h) c = Inr c'" using assms(1) by (auto simp: revoke_file_def bindE_Inr_iff)
  with send_safe [OF assms(2), of "REVOKE # h"] show ?thesis by auto
qed

text \<open>The thread and the command line keep the module and the database in order.\<close>

lemma run_server_step_ok:
  assumes "run_server_step e now ev (m, db) = Some (Inr ((m', db'), lines))" "module_ok m" "db_inv db"
  shows "module_ok m' \<and> db_inv db'"
proof (cases ev)
  case Client_Created
  with assms show ?thesis
    by (auto simp: module_ok_def client_safe_def Udp_Client_new_def split: if_splits)
next
  case Server_Created
  with assms show ?thesis by (auto simp: module_ok_def Udp_Server_new_def split: if_splits)
next
  case (Write_Done ended)
  with assms(1) obtain c c' where c: "module_thread m = Running" "ptr_client m = Pointee c"
      "client_step (Completed ended) c = Inr c'" "m' = m\<lparr>ptr_client := Pointee c'\<rparr>" "db' = db"
    by (auto simp: bindE_Inr_iff split: module_pc.splits stack_ptr.splits)
  have "client_safe c" using assms(2) c(1,2) by (simp add: module_ok_def)
  then have "client_safe c'" using c(3) completion_safe [of c True ended] by (auto split: if_splits)
  with c assms(2,3) show ?thesis by (simp add: module_ok_def)
next
  case (Beacon_Fired pinned)
  with assms(1) obtain c c' where c: "module_thread m = Running" "ptr_client m = Pointee c"
      "fire_beacon e pinned db c = Inr (db', c')" "m' = m\<lparr>ptr_client := Pointee c'\<rparr>"
    by (auto simp: bindE_Inr_iff split: module_pc.splits stack_ptr.splits)
  have "client_safe c" using assms(2) c(1,2) by (simp add: module_ok_def)
  with fire_beacon_keeps [OF c(3) assms(3)] c assms(2,3) show ?thesis by (simp add: module_ok_def)
next
  case (Server_Handler ev')
  with assms(1) obtain srv srv' where s: "module_thread m = Running" "ptr_server m = Pointee srv"
      "handle_receive e ev' (srv, db) = Inr (srv', db')" "m' = m\<lparr>ptr_server := Pointee srv'\<rparr>"
    by (auto simp: bindE_Inr_iff split: module_pc.splits stack_ptr.splits)
  have "length (recv_buffer srv) = UDP_SERV_BUFFER_SIZE" using assms(2) s(1,2) by (simp add: module_ok_def)
  with handle_receive_keeps [OF s(3) assms(3)] s assms(2) show ?thesis by (simp add: module_ok_def)
next
  case (Thrown what)
  with assms show ?thesis
    by (auto simp: module_ok_def end_thread_def split: if_splits module_pc.splits)
next
  case Returned
  with assms show ?thesis by (auto simp: module_ok_def end_thread_def split: if_splits)
qed

lemma revoke_step_ok:
  assumes "Udp_Module_revoke_file e r (m, db) = Inr (m', db')" "module_ok m" "db_inv db"
  shows "module_ok m' \<and> db_inv db'"
proof (cases "ptr_client m")
  case (Pointee c)
  with assms(1) obtain c' where c': "revoke_file e r c = Inr c'" "revoke_resource r db = Inr db'"
      "m' = m\<lparr>ptr_client := Pointee c'\<rparr>"
    by (auto simp: Udp_Module_revoke_file_def bindE_Inr_iff)
  have "db_inv db'" using revoke_resource_correct [OF assms(3), of r] c'(2) by auto
  with revoke_file_keeps [OF c'(1)] assms(2) Pointee c'(3) show ?thesis
    by (auto simp: module_ok_def split: module_pc.splits)
qed (use assms in \<open>auto simp: Udp_Module_revoke_file_def\<close>)

lemma module_run_ok:
  assumes "module_run e db0 s log" "db_inv db0"
  shows "module_ok (fst s) \<and> db_inv (snd s)"
  using assms
proof (induction rule: module_run.induct)
  case init
  then show ?case by (simp add: module_ok_def Udp_Module_new_def)
next
  case (thread s log now ev s' lines)
  then show ?case
    using run_server_step_ok [of e now ev "fst s" "snd s" "fst s'" "snd s'" lines] by simp
next
  case (revoke s log r s')
  then show ?case using revoke_step_ok [of e r "fst s" "snd s" "fst s'" "snd s'"] by simp
qed

text \<open>C35: What a revocation by the user meets, however it is interleaved with the start, the work
  and the end of the UDP module: before the client exists nothing happens, neither on the
  network nor in the database; while the thread lives the file is revoked; and once the
  thread has ended, by an exception of the server's constructor, of a handler, or because
  \<open>run\<close> returned, every revocation uses the destroyed client, unless the client was never
  created.\<close>

theorem revocation_meets_module:
  assumes "module_run e db0 (m, db) log" "db_inv db0" "length (res_name r) \<le> RESOURCE_HEADER_SIZE"
  shows "case module_thread m of
      Creating_Client \<Rightarrow> Udp_Module_revoke_file e r (m, db) = Inr (m, db)
    | Ended \<Rightarrow> Udp_Module_revoke_file e r (m, db) = (if ptr_client m = Empty then Inr (m, db) else Inl DeadObject)
    | _ \<Rightarrow> \<exists>m' db'. Udp_Module_revoke_file e r (m, db) = Inr (m', db') \<and>
        abs_db db' = spec_revoke (res_key r) (abs_db db)"
proof -
  have ok: "module_ok m" "db_inv db" using module_run_ok [OF assms(1,2)] by simp_all
  have live: "\<exists>m' db'. Udp_Module_revoke_file e r (m, db) = Inr (m', db') \<and>
      abs_db db' = spec_revoke (res_key r) (abs_db db)" if "ptr_client m = Pointee c" "client_safe c" for c
    using that revoke_file_ok [OF that(2) assms(3), of e] revoke_resource_correct [OF ok(2), of r]
    by (auto simp: Udp_Module_revoke_file_def)
  from ok(1) live show ?thesis
    by (auto simp: module_ok_def Udp_Module_revoke_file_def split: module_pc.splits)
qed

theorem revocation_meets_module_witness:
  "\<exists>db :: nat database. db_inv db \<and>
    module_run Little db (end_thread (Udp_Module_new\<lparr>module_thread := Creating_Server,
      ptr_client := Pointee (Udp_Client_new 0 beacon_interval)\<rparr>), db) [''Address already in use''] \<and>
    Udp_Module_revoke_file Little (Resource_new ''XD'' 0 ''./'') (end_thread (Udp_Module_new\<lparr>module_thread :=
      Creating_Server, ptr_client := Pointee (Udp_Client_new 0 beacon_interval)\<rparr>), db) = Inl DeadObject"
proof -
  obtain db :: "nat database" where db: "db_inv db" by (rule advertising_database)
  let ?m1 = "Udp_Module_new\<lparr>module_thread := Creating_Server,
    ptr_client := Pointee (Udp_Client_new 0 beacon_interval)\<rparr>"
  have "module_run Little db (?m1, db) []"
    using module_run.thread [OF module_run.init, of Little 0 Client_Created db "(?m1, db)" "[]"]
    by (simp add: Udp_Module_new_def)
  from module_run.thread [OF this, of 0 "Thrown ''Address already in use''" "(end_thread ?m1, db)"]
  have run: "module_run Little db (end_thread ?m1, db) [''Address already in use'']"
    by (simp add: Udp_Module_new_def)
  have "length (res_name (Resource_new ''XD'' 0 ''./'')) \<le> RESOURCE_HEADER_SIZE"
    by (simp add: Resource_new_def)
  from revocation_meets_module [OF run db this] run db show ?thesis
    by (intro exI [of _ db]) (simp add: end_thread_def)
qed

section \<open>The module in the program\<close>

text \<open>The event by which the module starts in the program is the two constructors.\<close>

lemma run_server_is_module_start:
  "run_server_step e now Client_Created (Udp_Module_new, db) = Some (Inr ((m, db), [])) \<Longrightarrow>
   run_server_step e now Server_Created (m, db) = Some (Inr ((m', db), [])) \<Longrightarrow>
   ptr_client m' = Pointee c \<and> ptr_server m' = Pointee srv \<longleftrightarrow>
     cli_client (prog_cli (run_server now s)) = Some c \<and> prog_server (run_server now s) = Some srv"
  by (auto simp: Udp_Module_new_def run_server_def)

section \<open>The thread of a download\<close>

text \<open>
  The command \<open>download\<close> starts a thread whose body captures the loop variable \<open>resource\<close> by
  reference, detaches it and returns, which destroys the variable. The thread reads it when
  it constructs its \<open>DownloadService\<close>.
\<close>

datatype download_step = Command_Returns | Thread_Reads

fun download_race :: "download_step list \<Rightarrow> bool \<Rightarrow> rptr \<Rightarrow> rptr option \<Rightarrow> rptr option result" where
  "download_race [] in_scope resource service = Inr service"
| "download_race (Command_Returns # es) in_scope resource service = download_race es False resource service"
| "download_race (Thread_Reads # es) in_scope resource service =
     (if in_scope then download_race es in_scope resource (Some resource) else Inl DeadObject)"

text \<open>The download is of the resource only if the thread is the faster one.\<close>

lemma download_race_outcomes:
  "download_race [Thread_Reads, Command_Returns] True p None = Inr (Some p)"
  "download_race [Command_Returns, Thread_Reads] True p None = Inl DeadObject"
  by simp_all

end
