(* ===== verification/Spec2Isabelle.thy ===== *)
theory Spec2Isabelle
  imports Download_Termination Byte_Order System_Downloads Download_Teardown Split_Requests Component_Logs Module_Lifetimes
begin

text \<open>
  \<^bold>\<open>simple-p2p: a verification development.\<close> The program (\<^verbatim>\<open>src/\<close>, \<^verbatim>\<open>include/\<close>, C++ with Boost.Asio)
  shares files in a local network. Every host runs a database of files and of the hosts that
  own them. It advertises its own files by UDP broadcasts (a beacon every five seconds) and
  announces revocations the same way; peers enter what they receive into their databases. To
  download a file, one worker per owner requests segments of 1024 octets by TCP, and the
  assembled file is stored and advertised in turn. A command line adds, revokes, downloads
  and lists files; a logger and a printer write lines in threads of their own.

  \<^bold>\<open>Parts.\<close> Each theory models the files it names, in the order of the code.

  \<^item> \<open>P2P_Prelude\<close>: the result monad (\<open>Inl\<close> a fault, \<open>Inr\<close> a value), its loops (\<open>foldE\<close>,
    \<open>mapE\<close>, \<open>find_ifE\<close>, \<open>count_ifE\<close>), \<open>memcpy\<close>, octets and byte orders, and the contracts
    \<open>safe_component\<close> and \<open>observed_component\<close>.
  \<^item> \<open>General_Types\<close>: \<^verbatim>\<open>GeneralTypes.h\<close>. Integers are words of their width.
  \<^item> \<open>Resource_Model\<close>, \<open>Host_Model\<close>: \<^verbatim>\<open>Resource\<close>, \<^verbatim>\<open>Host\<close>. The wire header implements the
    contract \<open>wire_codec\<close>; the signed 8-bit timeout counter and the ban are kept at their width.
  \<^item> \<open>Resource_Database\<close>, \<open>Database_Invariant\<close>: \<^verbatim>\<open>ResourceDatabase\<close>. \<open>shared_ptr\<close> and
    \<open>weak_ptr\<close> are addresses in an explicit heap; a dead or null pointer and an iterator used
    after an erase are faults. \<open>db_inv\<close> is the representation invariant, \<open>abs_db\<close> the abstract
    state: a relation of addresses and files, with the known, revoked and local ones.
  \<^item> \<open>Complete_Resource\<close>, \<open>Download_Worker\<close>, \<open>Download_System\<close>: \<^verbatim>\<open>Segment\<close>,
    \<^verbatim>\<open>CompleteResource\<close>, \<^verbatim>\<open>DownloadWorker\<close>, \<^verbatim>\<open>DownloadService\<close>. A download is a system of
    threads: \<open>fire\<close> is one critical section, or one call to the network, of one thread, and
    \<open>run_under\<close> reaches states by steps the environment is restricted to (\<open>no_timeout\<close>,
    \<open>honest\<close>, \<open>served\<close>). \<open>None\<close> is a step that is not enabled.
  \<^item> \<open>Download_Invariant\<close>, \<open>Download_Progress\<close>, \<open>Download_Termination\<close>, \<open>Download_Types\<close>,
    \<open>Download_Anomalies\<close>: what holds of it. \<open>Download_Service\<close>: how a download starts and
    what it stores. \<open>Download_Teardown\<close>: how it ends, \<^verbatim>\<open>~DownloadService\<close> interleaved with
    the worker threads, and whether the sockets it cancels are open.
  \<^item> \<open>File_Manager\<close>: \<^verbatim>\<open>FileManager\<close>, with the flags of \<open>std::ifstream\<close> and the two lock tables,
    which implement the contract \<open>rw_lock\<close>. A call that waits is \<open>None\<close>.
  \<^item> \<open>Request_Worker\<close>: \<^verbatim>\<open>RequestWorker\<close>, \<^verbatim>\<open>RequestServer\<close>, \<^verbatim>\<open>RequestServerModule\<close>. \<open>Split_Requests\<close>: a
    request that TCP delivers in two parts.
  \<^item> \<open>Udp_Client\<close>, \<open>Udp_Server\<close>: \<^verbatim>\<open>UdpClient\<close>, \<^verbatim>\<open>UdpServer\<close>, \<^verbatim>\<open>UdpModule\<close>.
  \<^item> \<open>Line_Queue\<close>: \<^verbatim>\<open>LoggingModule\<close>, \<^verbatim>\<open>Printer\<close>, two implementations of \<open>line_sink\<close>.
  \<^item> \<open>CLI_Model\<close>: \<^verbatim>\<open>CLI\<close>, \<^verbatim>\<open>CLICommand\<close>. \<open>Main_Program\<close>: \<^verbatim>\<open>main.cpp\<close>, all modules around one
    database and one file manager, with \<open>prog_step\<close> for the events of all threads.
  \<^item> \<open>Byte_Order\<close>: the program on little-endian and big-endian hosts.
  \<^item> \<open>Component_Logs\<close>: the lines the components write to the log, by operation.
  \<^item> \<open>Module_Lifetimes\<close>: \<^verbatim>\<open>UdpModule\<close> with the lifetimes of the objects its thread creates, and
    the thread of the command \<open>download\<close>.
  \<^item> \<open>Discovery\<close>: what a beacon of one host does to the database of another. \<open>Sharing\<close>: what the
    events of a program keep, and the end of a download in it.
  \<^item> \<open>Whole_System\<close>: the program with any number of downloads running in it at the same time, on the
    \<open>Host\<close> objects of its database; \<open>system_step\<close> is a step of any thread. \<open>System_Downloads\<close>: a
    download from its start to the stored file among all the others, and how they disturb it.
  \<^item> This theory: a beacon from one database to another, a file from the command line of one host to
    the command line of another.

  \<^bold>\<open>What is shown.\<close> The database implements the abstract relation under every sequence of
  calls and never faults. Without timeouts a download stores the peers' file or nothing, for
  any number of workers and any interleaving; a segment has one holder; the workers come to
  rest within a bound; and a schedule exists on which the file is stored. With timeouts the sizes
  stay right and workers hold segments of the file only, and the three kinds of faulting steps are known,
  but a segment can be counted twice, so that an incomplete file is stored. Requests are
  answered with the segments of the file; the outcome of every request and of every datagram
  is given, faults included. Beacons advertise exactly the local files and revocations reach
  the peers, between hosts of any byte order. The sender keeps the order of datagrams, until a
  send fails. The whole program, with all downloads that run in it, never faults on safe events,
  and a file added at one command line can be downloaded at another. Among other downloads an
  undisturbed one ends with the file on the disk, in the database and served, and can always be
  brought there; but the bans of one download make others give up. The destructor of a download
  comes to its end unless a worker waits for ever, and closing a worker whose socket is not open
  ends the process. A request that TCP delivers in two parts is answered with the segment before,
  which is stored in the place of the one asked for. The log of a TCP session tells its outcome. A revocation works while the UDP
  module lives and uses a dead object after. The errors found are stated as properties of the
  code as it is.

  \<^bold>\<open>Method.\<close> A contract one component states for another is a locale, interpreted on the
  model of the code: \<open>safe_component\<close> and its extension \<open>observed_component\<close> on the database,
  \<open>wire_codec\<close> on resource headers and on segment requests, \<open>rw_lock\<close> on the lock tables,
  \<open>line_sink\<close> on logger and printer. Invariants of step relations go by one preservation
  lemma per step and rule induction.

  \<^bold>\<open>Bounds.\<close> There is no fuel: all loops are structural or have a measure, and executions are
  relations or lists of events. 65535 segments, the 16-bit count, is the largest file a
  download covers; 64 MiB the largest a request is answered for; 256 characters and no NUL
  (\<open>header_ok\<close>) what a header keeps of a name; three headers fit a datagram.

  \<^bold>\<open>Parameters.\<close> The network, the clock, the disk, the parsers and the tokenizer of Boost, \<open>file_size\<close>, \<open>ctime\<close>,
  the contents of fresh memory and the scheduler are arguments or events; so is whether
  \<open>socket.cancel\<close> throws, with Boost's documentation of it as a hypothesis (\<open>asio_cancel\<close>).
  Addresses are a type variable.

  \<^bold>\<open>Not modelled.\<close> The threads that only run an \<open>io_service\<close> (their handlers are the events),
  socket options, and what Boost does: parsing options and addresses, splitting lines. The log is
  written by functions of its own (\<open>Component_Logs\<close>), not as part of the states, since no
  component reads it. Each mutex makes the section it guards one step; data races outside
  mutexes (\<open>Host\<close>'s counters, \<open>ptr_client\<close>) are not. In \<open>prog_step\<close> the UDP module has started
  without an exception and a download's thread has read its captured resource before the
  command returns; \<open>Module_Lifetimes\<close> has what happens otherwise. A worker's wait for the end of
  a ban ends at once (\<open>get_ban_time_point\<close> is the present) and is no step. A TCP read delivers a
  whole request or any other octets at most the buffer's length, and is one event; the downloads
  of \<open>served\<close> are those whose requests arrive whole. In
  \<open>system_step\<close> the thread of a download ends without its destructor, which \<open>Download_Teardown\<close>
  has by itself: the destructor touches nothing but the download's own workers and sockets.
\<close>

section \<open>From advertisement to database\<close>



section \<open>From one command line to the other\<close>

text \<open>C4: A file added at one host can be downloaded at another. Host \<open>A\<close> and host \<open>B\<close> run, each
  in a state reached from \<open>main\<close> by harmless events. A user of \<open>A\<close> types \<open>add\<close> with the name of
  a file of size \<open>n\<close>, \<open>A\<close>'s beacon fires and its datagrams reach \<open>B\<close>, and a user of \<open>B\<close>, where
  no file of that name was known, types \<open>download\<close>: no step faults, the file is known at \<open>B\<close>
  with its size, a download of it is started, \<open>A\<close> is on the list of its owners, and unless \<open>A\<close>
  is banned the download runs with a worker for \<open>A\<close>.\<close>

theorem added_file_downloadable:
  fixes A B :: "'ip program"
  assumes "main_program freshA ipA diskA = Inr A0" "prog_run eA fsizeA tokensA A0 A"
    and "main_program freshB ipB diskB = Inr B0" "prog_run eB fsizeB tokensB B0 B"
    and "local_ip (cli_db (prog_cli B)) \<noteq> local_ip (cli_db (prog_cli A))"
    and "\<not> cli_exited (prog_cli A)" "cli_client (prog_cli A) = Some c" "client_ok c"
    and "\<not> cli_exited (prog_cli B)" "prog_server B = Some srv" "receiving srv"
    and "tokensA lineA = [''add'', name]" "fsizeA name = Size n" "tokensB lineB = [''download'', name]"
    and "length name \<le> FILE_NAME_LENGHT" "nul_free name" "advertisable (cli_db (prog_cli A))"
    and "\<forall>m. (local_ip (cli_db (prog_cli A)), name, m) \<in> owners (cli_db (prog_cli A)) \<longrightarrow> m = n"
    and "name \<notin> fst ` files (cli_db (prog_cli B))"
  shows "\<exists>A1 A2 c' packets B1 B2 p h.
    prog_step eA fsizeA tokensA (Typed lineA) A = Inr A1 \<and>
    prog_step eA fsizeA tokensA (Beacon pinned) A1 = Inr A2 \<and>
    cli_client (prog_cli A2) = Some c' \<and> accepted c' = accepted c @ packets \<and>
    foldE (prog_step eB fsizeB tokensB)
      (map (\<lambda>q. Datagram (Received (local_ip (cli_db (prog_cli A))) q)) packets) B = Inr B1 \<and>
    prog_step eB fsizeB tokensB (Typed lineB) B1 = Inr B2 \<and>
    cli_downloads (prog_cli B2) = cli_downloads (prog_cli B) @ [p] \<and>
    res_key (resOf (cli_db (prog_cli B2)) p) = (name, n) \<and>
    h \<in> set (hosts_in_possession (resOf (cli_db (prog_cli B2)) p)) \<and>
    host_ip (hostOf (cli_db (prog_cli B2)) h) = local_ip (cli_db (prog_cli A)) \<and>
    (\<not> is_retarded now (hostOf (cli_db (prog_cli B2)) h) \<longrightarrow>
       (\<exists>s0. DownloadService_init now (cli_db (prog_cli B2)) p = Inr (Inr s0) \<and>
          h \<in> w_host ` set (ds_workers s0)))"
proof -
  let ?a = "cli_db (prog_cli A)" and ?b = "cli_db (prog_cli B)"
  have okA: "prog_ok A" and okB: "prog_ok B"
    using prog_run_ok [OF assms(2)] prog_run_ok [OF assms(4)] main_program_ok [of freshA ipA diskA]
      main_program_ok [of freshB ipB diskB] assms(1,3) by auto
  obtain A1 where A1: "prog_step eA fsizeA tokensA (Typed lineA) A = Inr A1" "\<not> cli_exited (prog_cli A1)"
      "cli_client (prog_cli A1) = cli_client (prog_cli A)" "db_inv (cli_db (prog_cli A1))"
      "abs_db (cli_db (prog_cli A1)) = spec_add (name, n) (local_ip ?a) (abs_db ?a)"
    by (rule typed_add [of A tokensA lineA name fsizeA n eA, OF okA assms(6) assms(12,13)])
  let ?a1 = "cli_db (prog_cli A1)"
  have a1: "owners ?a1 = insert (local_ip ?a, name, n) (owners ?a)" "local_ip ?a1 = local_ip ?a"
    using arg_cong [OF A1(5), of reg_owners] arg_cong [OF A1(5), of reg_local]
    by (simp_all add: abs_db_def spec_add_def)
  have adv: "advertisable ?a1"
    using assms(15-17) a1 unfolding advertisable_def by auto
  let ?ks = "{k. (local_ip ?a, k) \<in> owners ?a1}"
  obtain A2 c' packets srv' b1 where sent: "prog_step eA fsizeA tokensA (Beacon pinned) A1 = Inr A2"
      "cli_client (prog_cli A2) = Some c'" "accepted c' = accepted c @ packets"
      "foldE (prog_step eB fsizeB tokensB) (map (\<lambda>q. Datagram (Received (local_ip ?a) q)) packets) B =
        Inr (B\<lparr>prog_cli := (prog_cli B)\<lparr>cli_db := b1\<rparr>, prog_server := Some srv'\<rparr>)"
      "learns (local_ip ?a) ?ks ?b b1"
    by (rule beacon_reaches [OF A1(4,2) _ assms(8) adv okB assms(9-11) a1(2) assms(5),
          where eA = eA and fsizeA = fsizeA and tokensA = tokensA and pinned = pinned and
            eB = eB and fsizeB = fsizeB and tokensB = tokensB]) (use A1(3) assms(7) in simp)
  have short: "\<forall>k \<in> ?ks. length (fst k) \<le> RESOURCE_HEADER_SIZE"
    using adv a1(2) unfolding advertisable_def by fastforce
  have ks: "(name, n) \<in> ?ks" "\<forall>m. (name, m) \<in> ?ks \<longrightarrow> m = n" using a1 assms(18) by auto
  obtain B2 p h where "prog_step eB fsizeB tokensB (Typed lineB)
      (B\<lparr>prog_cli := (prog_cli B)\<lparr>cli_db := b1\<rparr>, prog_server := Some srv'\<rparr>) = Inr B2"
      "cli_db (prog_cli B2) = b1" "cli_downloads (prog_cli B2) = cli_downloads (prog_cli B) @ [p]"
      "res_key (resOf b1 p) = (name, n)" "h \<in> set (hosts_in_possession (resOf b1 p))"
      "host_ip (hostOf b1 h) = local_ip ?a"
      "\<not> is_retarded now (hostOf b1 h) \<longrightarrow>
        (\<exists>s0. DownloadService_init now b1 p = Inr (Inr s0) \<and> h \<in> w_host ` set (ds_workers s0))"
    by (rule learned_file_downloaded [where tokens = tokensB and line = lineB and e = eB and fsize = fsizeB and
          sv = "Some srv'" and now = now, OF okB assms(9) sent(5) ks assms(19) short assms(14)])
  then show ?thesis
    using A1(1) sent(1-4)
    by (intro exI [of _ A1] exI [of _ A2] exI [of _ c'] exI [of _ packets]
        exI [of _ "B\<lparr>prog_cli := (prog_cli B)\<lparr>cli_db := b1\<rparr>, prog_server := Some srv'\<rparr>"] exI [of _ B2]
        exI [of _ p] exI [of _ h]) simp
qed

theorem added_file_downloadable_witness:
  "\<exists>(A :: nat program) (B :: nat program) A1 A2 c' packets B1 B2 p.
    prog_step Little (\<lambda>_. Size 3) (\<lambda>line. [''add'', line]) (Typed ''f'') A = Inr A1 \<and>
    prog_step Little (\<lambda>_. Size 3) (\<lambda>line. [''add'', line]) (Beacon {}) A1 = Inr A2 \<and>
    cli_client (prog_cli A2) = Some c' \<and> accepted c' = packets \<and>
    foldE (prog_step Big (\<lambda>_. Other_error) (\<lambda>line. [''download'', line]))
      (map (\<lambda>q. Datagram (Received 7 q)) packets) B = Inr B1 \<and>
    prog_step Big (\<lambda>_. Other_error) (\<lambda>line. [''download'', line]) (Typed ''f'') B1 = Inr B2 \<and>
    cli_downloads (prog_cli B2) = cli_downloads (prog_cli B) @ [p] \<and>
    res_key (resOf (cli_db (prog_cli B2)) p) = (''f'', 3)"
proof -
  let ?fA = "\<lambda>_. Size 3" and ?tA = "\<lambda>line. [''add'', line]"
    and ?fB = "\<lambda>_. Other_error" and ?tB = "\<lambda>line. [''download'', line]"
  let ?c = "Udp_Client_new 0 beacon_interval"
  obtain A0 A where A0: "main_program (\<lambda>_. 0) (7 :: nat) (\<lambda>_. None) = Inr A0" "prog_run Little ?fA ?tA A0 A"
      and A: "\<not> cli_exited (prog_cli A)" "cli_client (prog_cli A) = Some ?c"
      "local_ip (cli_db (prog_cli A)) = 7" "owners (cli_db (prog_cli A)) = {(7, ''XD'', 0)}"
    by (rule main_then_server [where fresh = "\<lambda>_. 0" and ip = "7 :: nat" and d = "\<lambda>_. None" and now = 0 and
          e = Little and fsize = ?fA and tokens = ?tA]) blast
  obtain B0 B where B0: "main_program (\<lambda>_. 0) (8 :: nat) (\<lambda>_. None) = Inr B0" "prog_run Big ?fB ?tB B0 B"
      and B: "\<not> cli_exited (prog_cli B)" "prog_server B = Some Udp_Server_new"
      "local_ip (cli_db (prog_cli B)) = 8" "files (cli_db (prog_cli B)) = {(''XD'', 0)}"
    by (rule main_then_server [where fresh = "\<lambda>_. 0" and ip = "8 :: nat" and d = "\<lambda>_. None" and now = 0 and
          e = Big and fsize = ?fB and tokens = ?tB]) blast
  have c: "client_ok ?c" "accepted ?c = []" "receiving Udp_Server_new"
    by (simp_all add: client_ok_def Udp_Client_new_def accepted_def Udp_Server_new_def)
  have name: "length ''f'' \<le> FILE_NAME_LENGHT" "nul_free ''f''" by (simp_all add: nul_free_def)
  have adv: "advertisable (cli_db (prog_cli A))" "local_ip (cli_db (prog_cli B)) \<noteq> local_ip (cli_db (prog_cli A))"
    unfolding advertisable_def A(3,4) B(3) by (simp_all add: nul_free_def)
  have one: "\<forall>m. (local_ip (cli_db (prog_cli A)), ''f'', m) \<in> owners (cli_db (prog_cli A)) \<longrightarrow> m = 3"
      "''f'' \<notin> fst ` files (cli_db (prog_cli B))"
    unfolding A(4) B(4) by simp_all
  obtain A1 A2 c' packets B1 B2 p where
      "prog_step Little ?fA ?tA (Typed ''f'') A = Inr A1" "prog_step Little ?fA ?tA (Beacon {}) A1 = Inr A2"
      "cli_client (prog_cli A2) = Some c'" "accepted c' = accepted ?c @ packets"
      "foldE (prog_step Big ?fB ?tB) (map (\<lambda>q. Datagram (Received (local_ip (cli_db (prog_cli A))) q)) packets)
        B = Inr B1"
      "prog_step Big ?fB ?tB (Typed ''f'') B1 = Inr B2"
      "cli_downloads (prog_cli B2) = cli_downloads (prog_cli B) @ [p]"
      "res_key (resOf (cli_db (prog_cli B2)) p) = (''f'', 3)"
    using added_file_downloadable [OF A0 B0 adv(2) A(1,2) c(1) B(1,2) c(3) refl refl refl name adv(1) one, of "{}"]
    by blast
  then show ?thesis
    unfolding A(3) c(2) append_Nil
    by (intro exI [of _ A] exI [of _ B] exI [of _ A1] exI [of _ A2] exI [of _ c'] exI [of _ packets]
        exI [of _ B1] exI [of _ B2] exI [of _ p] conjI)
qed

end
